(* ===== verification/Prelude.thy ===== *)
theory Prelude
  imports Main "HOL-Library.Multiset"
begin

text \<open>
  Shared vocabulary of the SoyutNet development: the types that name the
  program's data (labels, ids, token tuples), the error values that stand
  for the exceptions the Python code raises, the Python dictionary idioms
  the registry and the observer use (as association lists, because Python
  dictionaries iterate in insertion order and the code depends on that
  order), the decimal rendering of integers used for default names, and
  the generic lemmas on these that the component theories share.
\<close>

section \<open>Names of the model's types\<close>

type_synonym label = string
  \<comment> \<open>\<open>label_t\<close> of \<open>soyutnet.constants\<close>\<close>
type_synonym id_t = int
  \<comment> \<open>\<open>id_t\<close>: Python integers, unbounded\<close>
type_synonym token = "label \<times> id_t"
  \<comment> \<open>\<open>TokenType\<close>: a \<open>(label, id)\<close> tuple\<close>
type_synonym time = nat
  \<comment> \<open>the event-loop clock \<open>loop.time()\<close>, read as a monotone tick count\<close>

text \<open>
  A column of an observer record \<open>(time, ((label, count), ...), requester)\<close>,
  the values a \<open>ComparativeObserver\<close> compares against.
\<close>

datatype obs_value = VTime time | VTokens "(label \<times> int) list" | VStr string

text \<open>
  Exceptions of the Python code, as values. \<open>Mismatch ident column actual
  expected\<close> is the \<open>RuntimeError\<close> a \<open>ComparativeObserver\<close> raises, whose
  message is built from exactly these four values.
\<close>

datatype error =
    ConfigurationError string
  | Mismatch string int obs_value obs_value
  | IndexError
  | Cancelled

text \<open>
  The outcome of an operation of one task: it returns (\<open>Done\<close>), raises
  (\<open>Failed\<close>), or waits forever on a lock no task will release (\<open>Stuck\<close>,
  with the state it leaves behind for the other tasks).
\<close>

datatype 'a result = Done 'a | Failed error | Stuck 'a

named_theorems dict_simps "rewrite rules for the Python dictionary model"
named_theorems registry_simps "evaluation rules of the registry operations"
named_theorems observer_simps "evaluation rules of the observer operations"
named_theorems net_simps "evaluation rules of the net operations"

section \<open>Python dictionaries as association lists\<close>

text \<open>
  \<open>dict_get d k\<close> is \<open>d.get(k)\<close>; \<open>dict_append d k x\<close> is the idiom
  \<^verbatim>\<open>if k not in d: d[k] = []
d[k].append(x)\<close>
  and \<open>dict_add d k n\<close> is
  \<^verbatim>\<open>if k not in d: d[k] = 0
d[k] += n\<close>
  A new key goes to the end, as in a Python dictionary.
\<close>

abbreviation dict_get :: "('k \<times> 'v) list \<Rightarrow> 'k \<Rightarrow> 'v option" where
  "dict_get d k \<equiv> map_of d k"

definition dict_list :: "('k \<times> 'v list) list \<Rightarrow> 'k \<Rightarrow> 'v list" where
  "dict_list d k = (case map_of d k of None \<Rightarrow> [] | Some v \<Rightarrow> v)"

fun dict_append :: "('k \<times> 'v list) list \<Rightarrow> 'k \<Rightarrow> 'v \<Rightarrow> ('k \<times> 'v list) list" where
  "dict_append [] k x = [(k, [x])]"
| "dict_append ((k', v) # d) k x =
     (if k' = k then (k', v @ [x]) # d else (k', v) # dict_append d k x)"

fun dict_add :: "('k \<times> int) list \<Rightarrow> 'k \<Rightarrow> int \<Rightarrow> ('k \<times> int) list" where
  "dict_add [] k n = [(k, 0 + n)]"
| "dict_add ((k', v) # d) k n =
     (if k' = k then (k', v + n) # d else (k', v) # dict_add d k n)"

definition dict_count :: "('k \<times> int) list \<Rightarrow> 'k \<Rightarrow> int" where
  "dict_count d k = (case map_of d k of None \<Rightarrow> 0 | Some v \<Rightarrow> v)"

lemma dict_list_Nil [simp, dict_simps]: "dict_list [] k = []"
  by (simp add: dict_list_def)

lemma dict_list_Cons [simp, dict_simps]:
  "dict_list ((a, b) # d) k = (if a = k then b else dict_list d k)"
  by (simp add: dict_list_def)

lemma dict_list_notin [simp]: "k \<notin> set (map fst d) \<Longrightarrow> dict_list d k = []"
  by (induction d) auto

lemma set_dict_list_sub: "set (dict_list d k) \<subseteq> set (concat (map snd d))"
proof (induction d)
  case (Cons p d)
  then show ?case by (cases p) auto
qed simp

lemma map_of_dict_append [simp, dict_simps]:
  "map_of (dict_append d k x) k' =
     (if k' = k then Some (dict_list d k @ [x]) else map_of d k')"
  by (induction d) (auto simp: dict_list_def)

lemma dict_list_append [simp, dict_simps]:
  "dict_list (dict_append d k x) k' = (if k' = k then dict_list d k @ [x] else dict_list d k')"
  by (simp add: dict_list_def)

lemma keys_dict_append [simp, dict_simps]:
  "map fst (dict_append d k x) = (if k \<in> set (map fst d) then map fst d else map fst d @ [k])"
proof (induction d)
  case (Cons p d)
  then show ?case by (cases p) (simp del: set_map)
qed simp

lemma length_dict_append [simp]:
  "length (dict_append d k x) = (if k \<in> set (map fst d) then length d else Suc (length d))"
  by (metis keys_dict_append length_map length_append_singleton)

lemma distinct_keys_dict_append [intro]:
  "distinct (map fst d) \<Longrightarrow> distinct (map fst (dict_append d k x))"
  by simp

lemma concat_dict_append [simp, dict_simps]:
  "set (concat (map snd (dict_append d k x))) = insert x (set (concat (map snd d)))"
proof (induction d)
  case (Cons p d)
  obtain a b where p: "p = (a, b)" by (cases p)
  show ?case
  proof (cases "a = k")
    case True
    with p show ?thesis by auto
  next
    case False
    with p Cons.IH show ?thesis by simp
  qed
qed simp

lemma map_of_dict_add [simp, dict_simps]:
  "map_of (dict_add d k n) k' =
     (if k' = k then Some (dict_count d k + n) else map_of d k')"
  by (induction d) (auto simp: dict_count_def)

lemma dict_count_add [simp, dict_simps]:
  "dict_count (dict_add d k n) k' = (if k' = k then dict_count d k + n else dict_count d k')"
  by (simp add: dict_count_def)

lemma keys_dict_add [simp, dict_simps]:
  "map fst (dict_add d k n) = (if k \<in> set (map fst d) then map fst d else map fst d @ [k])"
proof (induction d)
  case (Cons p d)
  then show ?case by (cases p) (simp del: set_map)
qed simp

section \<open>Python slicing and integer conversion\<close>

text \<open>\<open>xs[i:]\<close>, with Python's reading of a negative start.\<close>

definition py_slice_from :: "'a list \<Rightarrow> int \<Rightarrow> 'a list" where
  "py_slice_from xs i =
     (if 0 \<le> i then drop (nat i) xs else drop (nat (max 0 (int (length xs) + i))) xs)"

lemma length_py_slice_from:
  "0 \<le> i \<Longrightarrow> length (py_slice_from xs i) = length xs - nat i"
  by (simp add: py_slice_from_def)

text \<open>
  \<open>int(x * (n / d))\<close> for an integer \<open>x\<close>: Python's \<open>int\<close> truncates towards
  zero.
\<close>

definition py_int_ratio :: "int \<Rightarrow> int \<Rightarrow> int \<Rightarrow> int" where
  "py_int_ratio x n d = sgn (x * n) * (\<bar>x * n\<bar> div d)"

section \<open>Python's \<open>str\<close> of an integer\<close>

fun nat_str :: "nat \<Rightarrow> string" where
  "nat_str n =
     (if n < 10 then [char_of (48 + n)] else nat_str (n div 10) @ [char_of (48 + n mod 10)])"

definition int_str :: "int \<Rightarrow> string" where
  "int_str i = (if i < 0 then CHR ''-'' # nat_str (nat (- i)) else nat_str (nat i))"

declare nat_str.simps [simp del]

text \<open>Reading a decimal numeral back: the inverse used for the round trip.\<close>

fun str_nat_acc :: "nat \<Rightarrow> string \<Rightarrow> nat" where
  "str_nat_acc acc [] = acc"
| "str_nat_acc acc (c # cs) = str_nat_acc (10 * acc + (of_char c - 48)) cs"

definition str_int :: "string \<Rightarrow> int" where
  "str_int s =
     (if s \<noteq> [] \<and> hd s = CHR ''-'' then - int (str_nat_acc 0 (tl s)) else int (str_nat_acc 0 s))"

lemma str_nat_acc_append: "str_nat_acc acc (xs @ ys) = str_nat_acc (str_nat_acc acc xs) ys"
  by (induction xs arbitrary: acc) auto

lemma of_char_digit: "d < 10 \<Longrightarrow> (of_char (char_of (48 + d :: nat)) :: nat) = 48 + d"
  by (simp add: of_char_of)

lemma str_nat_acc_nat_str: "str_nat_acc acc (nat_str n) = acc * 10 ^ length (nat_str n) + n"
proof (induction n arbitrary: acc rule: nat_str.induct)
  case (1 n)
  show ?case
  proof (cases "n < 10")
    case True
    then show ?thesis by (simp add: nat_str.simps [of n] of_char_digit)
  next
    case False
    have "n mod 10 < 10" by simp
    then have d: "(of_char (char_of (48 + n mod 10 :: nat)) :: nat) = 48 + n mod 10"
      by (rule of_char_digit)
    have "n div 10 * 10 + n mod 10 = n" by simp
    with False "1.IH" d show ?thesis
      by (simp add: nat_str.simps [of n] str_nat_acc_append algebra_simps)
  qed
qed

lemma nat_str_not_minus: "hd (nat_str n) \<noteq> CHR ''-''"
proof (induction n rule: nat_str.induct)
  case (1 n)
  have ne: "nat_str m \<noteq> []" for m by (subst nat_str.simps) simp
  show ?case
  proof (cases "n < 10")
    case True
    then have "n \<in> {0..<10}" by simp
    then have "char_of (48 + n) \<noteq> CHR ''-''"
      by (auto simp: atLeastLessThan_nat_numeral) (simp_all add: char_of_def)
    with True show ?thesis by (simp add: nat_str.simps [of n])
  next
    case False
    with "1.IH" ne show ?thesis by (simp add: nat_str.simps [of n])
  qed
qed

lemma str_nat_nat_str [simp]: "str_nat_acc 0 (nat_str n) = n"
  by (simp add: str_nat_acc_nat_str)

lemma str_int_int_str [simp]: "str_int (int_str i) = i"
proof (cases "i < 0")
  case True
  then show ?thesis by (simp add: int_str_def str_int_def)
next
  case False
  with nat_str_not_minus [of "nat i"] show ?thesis
    by (simp add: int_str_def str_int_def)
qed

lemma int_str_inj [simp]: "int_str i = int_str j \<longleftrightarrow> i = j"
  by (metis str_int_int_str)

end
