(* ===== verification/Registry.thy ===== *)
theory Registry
  imports Prelude
begin

text \<open>
  The registry of \<open>src/soyutnet/registry.py\<close>: class \<open>Registry\<close> (an id
  counter and a directory from labels to the list of \<open>(id, object)\<close> entries
  registered under that label, in registration order) and its specialisation
  \<open>TokenRegistry\<close>, which writes the new id into the registered token.
  The registry is generic in the registered object \<open>'o\<close>; the place/transition
  registry \<open>PTRegistry\<close>, whose callback writes into the actors of the net,
  is in theory \<open>Orchestrator\<close>.

  A post-registration callback mutates the registered object after the entry
  \<open>(new_id, obj)\<close> has been appended; the directory holds a reference to the
  same object, so the model stores the object as the callback leaves it and
  returns it to the caller as well.
\<close>

section \<open>State and operations\<close>

record 'o registry =
  id_counter :: id_t
  directory :: "(label \<times> (id_t \<times> 'o) list) list"

definition Registry_init :: "id_t \<Rightarrow> 'o registry" where
  "Registry_init initial_id = \<lparr>id_counter = initial_id, directory = []\<rparr>"

definition new_id :: "'o registry \<Rightarrow> id_t \<times> 'o registry" where
  "new_id r = (let c = id_counter r + 1 in (c, r\<lparr>id_counter := c\<rparr>))"

definition register ::
  "('o \<Rightarrow> label) \<Rightarrow> (id_t \<Rightarrow> 'o \<Rightarrow> 'o) \<Rightarrow> 'o \<Rightarrow> 'o registry \<Rightarrow> id_t \<times> 'o \<times> 'o registry" where
  "register get_label post_register_callback obj r =
     (let (nid, r1) = new_id r;
          lbl = get_label obj;
          obj' = post_register_callback nid obj
      in (nid, obj', r1\<lparr>directory := dict_append (directory r1) lbl (nid, obj')\<rparr>))"

text \<open>\<open>_default_post_register_callback\<close> does nothing.\<close>

abbreviation default_post_register_callback :: "id_t \<Rightarrow> 'o \<Rightarrow> 'o" where
  "default_post_register_callback \<equiv> (\<lambda>_ obj. obj)"

text \<open>
  \<open>get_entry_count\<close> returns \<open>len(self._directory)\<close>, the number of labels,
  where its docstring promises the number of entries with the label.
\<close>

definition get_entry_count :: "label \<Rightarrow> 'o registry \<Rightarrow> nat" where
  "get_entry_count lbl r =
     (if lbl \<in> set (map fst (directory r)) then length (directory r) else 0)"

text \<open>\<open>None\<close> stands for the pair \<open>(INVALID_ID, None)\<close> the code returns.\<close>

definition get_first_entry :: "label \<Rightarrow> 'o registry \<Rightarrow> (id_t \<times> 'o) option" where
  "get_first_entry lbl r =
     (if lbl \<in> set (map fst (directory r)) \<and> 0 < length (dict_list (directory r) lbl)
      then Some (hd (dict_list (directory r) lbl)) else None)"

definition get_entries :: "label \<Rightarrow> id_t \<Rightarrow> 'o registry \<Rightarrow> 'o list" where
  "get_entries lbl i r =
     (if lbl \<notin> set (map fst (directory r)) then []
      else map snd (filter (\<lambda>e. fst e = i) (dict_list (directory r) lbl)))"

text \<open>
  \<open>entries(label)\<close> iterates the entries of \<open>label\<close> when it is a key of the
  directory, and every entry of every label otherwise: \<open>None\<close>, and also any
  label that was never registered.
\<close>

definition entries :: "label option \<Rightarrow> 'o registry \<Rightarrow> (id_t \<times> 'o) list" where
  "entries lbl r =
     (case lbl of
        Some l \<Rightarrow> if l \<in> set (map fst (directory r)) then dict_list (directory r) l
                  else concat (map snd (directory r))
      | None \<Rightarrow> concat (map snd (directory r)))"

subsection \<open>TokenRegistry\<close>

text \<open>A token is its \<open>(label, id)\<close> pair; the callback sets the id.\<close>

definition token_register :: "token \<Rightarrow> token registry \<Rightarrow> id_t \<times> token \<times> token registry" where
  "token_register tkn r = register fst (\<lambda>nid t. (fst t, nid)) tkn r"

text \<open>Minting a token of a label: create it and register it.\<close>

definition mint :: "label \<Rightarrow> token registry \<Rightarrow> token \<times> token registry" where
  "mint l r = (let (_, t, r') = token_register (l, 0) r in (t, r'))"

fun mint_n :: "nat \<Rightarrow> label \<Rightarrow> token registry \<Rightarrow> token list \<times> token registry" where
  "mint_n 0 l r = ([], r)"
| "mint_n (Suc n) l r =
     (let (t, r1) = mint l r; (ts, r2) = mint_n n l r1 in (t # ts, r2))"

section \<open>Invariant\<close>

text \<open>
  All ids of the directory's entries, in iteration order; the registry
  invariant: labels are distinct keys, ids are distinct and none exceeds the
  counter.
\<close>

definition all_ids :: "'o registry \<Rightarrow> id_t list" where
  "all_ids r = map fst (concat (map snd (directory r)))"

definition reg_inv :: "'o registry \<Rightarrow> bool" where
  "reg_inv r \<longleftrightarrow>
     distinct (map fst (directory r)) \<and> distinct (all_ids r) \<and> (\<forall>i \<in> set (all_ids r). i \<le> id_counter r)"

section \<open>A reference: the log of registrations\<close>

text \<open>
  A client registering objects one after the other with the default callback,
  and the flat log of what it registered: label, assigned id, object. The
  directory indexed by label is an optimisation of scanning this log.
\<close>

fun register_many :: "('o \<Rightarrow> label) \<Rightarrow> 'o list \<Rightarrow> 'o registry \<Rightarrow> 'o registry" where
  "register_many g [] r = r"
| "register_many g (x # xs) r = register_many g xs (snd (snd (register g default_post_register_callback x r)))"

fun reg_log :: "('o \<Rightarrow> label) \<Rightarrow> 'o list \<Rightarrow> id_t \<Rightarrow> (label \<times> id_t \<times> 'o) list" where
  "reg_log g [] c = []"
| "reg_log g (x # xs) c = (g x, c + 1, x) # reg_log g xs (c + 1)"

lemma new_id_simps [simp, registry_simps]:
  "fst (new_id r) = id_counter r + 1"
  "id_counter (snd (new_id r)) = id_counter r + 1"
  "directory (snd (new_id r)) = directory r"
  by (simp_all add: new_id_def Let_def)

lemma register_parts [registry_simps]:
  "register g cb obj r =
     (id_counter r + 1, cb (id_counter r + 1) obj,
      \<lparr>id_counter = id_counter r + 1,
       directory = dict_append (directory r) (g obj) (id_counter r + 1, cb (id_counter r + 1) obj),
       \<dots> = registry.more r\<rparr>)"
  by (simp add: register_def new_id_def Let_def)

lemma mset_concat_dict_append [simp]:
  "mset (concat (map snd (dict_append d k x))) = add_mset x (mset (concat (map snd d)))"
proof (induction d)
  case (Cons p d)
  then show ?case by (cases p) auto
qed simp

lemma all_ids_register:
  "mset (all_ids (snd (snd (register g cb obj r)))) = mset ((id_counter r + 1) # all_ids r)"
  by (simp add: all_ids_def register_parts)

lemma set_all_ids_register [simp]:
  "set (all_ids (snd (snd (register g cb obj r)))) = insert (id_counter r + 1) (set (all_ids r))"
  by (metis all_ids_register list.simps(15) set_mset_mset)

lemma distinct_all_ids_register:
  assumes "reg_inv r"
  shows "distinct (all_ids (snd (snd (register g cb obj r))))"
proof -
  have fresh: "id_counter r + 1 \<notin> set (all_ids r)"
    using assms by (auto simp: reg_inv_def)
  have "distinct (all_ids r)" using assms by (simp add: reg_inv_def)
  with fresh have "distinct ((id_counter r + 1) # all_ids r)" by simp
  then show ?thesis
    using mset_eq_imp_distinct_iff [OF all_ids_register [of g cb obj r]] by simp
qed

lemma reg_inv_init [simp]: "reg_inv (Registry_init i)"
  by (simp add: reg_inv_def Registry_init_def all_ids_def)

lemma id_of_dict_list:
  "e \<in> set (dict_list (directory r) k) \<Longrightarrow> fst e \<in> set (all_ids r)"
  using set_dict_list_sub [of "directory r" k] by (force simp: all_ids_def)

lemma register_directory [simp, registry_simps]:
  "directory (snd (snd (register g cb obj r))) =
     dict_append (directory r) (g obj) (id_counter r + 1, cb (id_counter r + 1) obj)"
  "id_counter (snd (snd (register g cb obj r))) = id_counter r + 1"
  "fst (register g cb obj r) = id_counter r + 1"
  "fst (snd (register g cb obj r)) = cb (id_counter r + 1) obj"
  by (simp_all add: register_parts)

section \<open>Properties of the registry\<close>

text \<open>
  C14. Registration keeps the registry invariant: the labels stay distinct
  keys, the ids of all entries stay pairwise distinct and bounded by the
  counter; the new id is larger than every id registered before.
\<close>

theorem register_reg_inv:
  assumes "reg_inv r" and "register g cb obj r = (nid, obj', r')"
  shows "reg_inv r' \<and> (\<forall>i \<in> set (all_ids r). i < nid)"
proof -
  have r': "r' = snd (snd (register g cb obj r))" and nid: "nid = id_counter r + 1"
    using assms(2) by (metis snd_conv, metis fst_conv register_directory(3))
  have keys: "distinct (map fst (directory r'))"
    using assms(1) by (simp add: r' reg_inv_def)
  have ids: "distinct (all_ids r')"
    using distinct_all_ids_register [OF assms(1)] by (simp add: r')
  have bound: "\<forall>i \<in> set (all_ids r'). i \<le> id_counter r'"
    using assms(1) by (auto simp: r' reg_inv_def)
  have older: "\<forall>i \<in> set (all_ids r). i < nid"
    using assms(1) by (auto simp: nid reg_inv_def)
  from keys ids bound older show ?thesis by (simp add: reg_inv_def)
qed

text \<open>
  C15. Insert then look up: after \<open>register\<close>, \<open>get_entries\<close> at the
  object's label and the returned id finds exactly the registered object (as
  the callback left it), and every other \<open>(label, id)\<close> lookup is unchanged.
\<close>

theorem register_get_entries:
  assumes "reg_inv r" and "register g cb obj r = (nid, obj', r')"
  shows "get_entries (g obj) nid r' = [obj'] \<and>
         ((l, i) \<noteq> (g obj, nid) \<longrightarrow> get_entries l i r' = get_entries l i r)"
proof -
  have r': "r' = snd (snd (register g cb obj r))" and nid: "nid = id_counter r + 1"
    and o': "obj' = cb nid obj"
    using assms(2) by (metis snd_conv, metis fst_conv register_directory(3),
                       metis fst_conv snd_conv register_directory(3,4))
  have old: "\<forall>e \<in> set (dict_list (directory r) k). fst e \<noteq> nid" for k
    using assms(1) id_of_dict_list [of _ r k] by (fastforce simp: nid reg_inv_def)
  then have "filter (\<lambda>e. fst e = nid) (dict_list (directory r) (g obj)) = []"
    by (simp add: filter_empty_conv)
  then have hit: "get_entries (g obj) nid r' = [obj']"
    by (simp add: get_entries_def r' nid o')
  have other: "get_entries l i r' = get_entries l i r" if "(l, i) \<noteq> (g obj, nid)"
  proof (cases "l = g obj")
    case True
    with that have "i \<noteq> nid" by simp
    with True show ?thesis
      by (cases "l \<in> set (map fst (directory r))") (auto simp: get_entries_def r' nid)
  next
    case False
    then show ?thesis by (simp add: get_entries_def r')
  qed
  from hit other show ?thesis by blast
qed

text \<open>
  C27. \<open>get_entry_count\<close> does not count entries: registering another object
  under a label that is already present leaves the count unchanged (the code
  returns the number of labels in the directory).
\<close>

theorem get_entry_count_ignores_entries:
  assumes "g obj \<in> set (map fst (directory r))"
  shows "get_entry_count (g obj) (snd (snd (register g cb obj r))) = get_entry_count (g obj) r"
  using assms by (simp add: get_entry_count_def)

section \<open>Token minting\<close>

lemma mint_parts [simp, registry_simps]:
  "fst (mint l r) = (l, id_counter r + 1)"
  "id_counter (snd (mint l r)) = id_counter r + 1"
  "directory (snd (mint l r)) = dict_append (directory r) l (id_counter r + 1, (l, id_counter r + 1))"
  by (simp_all add: mint_def token_register_def register_parts split: prod.split)

lemma mint_n_Suc [simp]:
  "mint_n (Suc n) l r =
     (fst (mint l r) # fst (mint_n n l (snd (mint l r))), snd (mint_n n l (snd (mint l r))))"
  by (simp add: Let_def case_prod_beta)

declare mint_n.simps(2) [simp del]

lemma mint_n_counter: "id_counter (snd (mint_n n l r)) = id_counter r + int n"
  by (induction n arbitrary: r) auto

text \<open>
  C28. Minting \<open>n\<close> tokens of a label through the token registry gives them
  the label and the ids following the counter, one by one: ids increase
  strictly, so minted tokens never share an id.
\<close>

theorem mint_n_tokens:
  "fst (mint_n n l r) = map (\<lambda>k. (l, id_counter r + int k)) [1..<Suc n] \<and>
   id_counter (snd (mint_n n l r)) = id_counter r + int n"
proof (induction n arbitrary: r)
  case 0
  then show ?case by simp
next
  case (Suc n)
  have IH: "fst (mint_n n l (snd (mint l r))) =
            map (\<lambda>k. (l, id_counter r + 1 + int k)) [1..<Suc n]"
    using Suc.IH [of "snd (mint l r)"] by simp
  have "map (\<lambda>k. (l, id_counter r + int k)) [1..<Suc (Suc n)] =
        (l, id_counter r + 1) # map (\<lambda>k. (l, id_counter r + 1 + int k)) [1..<Suc n]"
    by (simp add: upt_conv_Cons map_Suc_upt [symmetric] del: upt_Suc)
  with IH show ?case
    by (simp add: mint_n_counter del: upt_Suc)
qed

section \<open>The directory against the log\<close>

lemma get_entries_dict_list:
  "get_entries lbl i r = map snd (filter (\<lambda>e. fst e = i) (dict_list (directory r) lbl))"
  by (simp add: get_entries_def)

lemma register_many_log:
  "dict_list (directory (register_many g xs r)) l =
     dict_list (directory r) l @ map snd (filter (\<lambda>e. fst e = l) (reg_log g xs (id_counter r)))
   \<and> mset (concat (map snd (directory (register_many g xs r)))) =
     mset (concat (map snd (directory r))) + mset (map snd (reg_log g xs (id_counter r)))"
proof (induction xs arbitrary: r)
  case Nil
  then show ?case by simp
next
  case (Cons x xs)
  let ?r1 = "snd (snd (register g default_post_register_callback x r))"
  have c: "id_counter ?r1 = id_counter r + 1" by simp
  show ?case using Cons.IH [of ?r1] c by auto
qed

text \<open>C8. The directory is equivalent to a scan of the registration log: after
  registering a list of objects from a fresh registry, get_entries at a label
  and an id gives exactly the objects the log records with that label and id,
  in registration order, and entries() yields every logged (id, object) pair once.\<close>

theorem directory_log_equiv:
  "get_entries l i (register_many g xs (Registry_init c)) =
     [x. (l', j, x) \<leftarrow> reg_log g xs c, l' = l \<and> j = i] \<and>
   mset (entries None (register_many g xs (Registry_init c))) = mset (map snd (reg_log g xs c))"
proof -
  have "map snd (filter (\<lambda>e. fst e = i) (map snd (filter (\<lambda>e. fst e = l) ys))) =
        [x. (l', j, x) \<leftarrow> ys, l' = l \<and> j = i]" for ys :: "(label \<times> id_t \<times> 'a) list"
    by (induction ys) auto
  then show ?thesis
    using register_many_log [of g xs "Registry_init c" l]
    by (simp add: get_entries_dict_list entries_def Registry_init_def)
qed

lemma keys_set_dict_append [simp]: "fst ` set (dict_append d k x) = insert k (fst ` set d)"
  by (simp only: set_map [symmetric] keys_dict_append) auto

lemma register_many_keys:
  "set (map fst (directory (register_many g xs r))) = set (map fst (directory r)) \<union> g ` set xs"
  by (induction xs arbitrary: r) auto

text \<open>C19. Registry.entries(label) for a label that was never registered does
  not yield nothing: the test label in self._directory fails and the
  generator walks the whole directory, so it yields every entry of every
  label, as entries() does; for a registered label it yields that label's
  entries in registration order.\<close>

theorem entries_unknown_label:
  "entries (Some l) (register_many g xs (Registry_init c)) =
     (if l \<in> g ` set xs then map snd (filter (\<lambda>e. fst e = l) (reg_log g xs c))
      else entries None (register_many g xs (Registry_init c)))"
  using register_many_log [of g xs "Registry_init c" l] register_many_keys [of g xs "Registry_init c"]
  by (simp add: entries_def Registry_init_def)

section \<open>Witnesses\<close>

text \<open>A token of label \<open>''g''\<close> registered from counter 0.\<close>

lemma token_register_example:
  "token_register (''g'', 0) (Registry_init 0) =
     (1, (''g'', 1), \<lparr>id_counter = 1, directory = [(''g'', [(1, (''g'', 1))])]\<rparr>)"
  by (simp add: token_register_def register_parts Registry_init_def)

lemma register_reg_inv_witness:
  "reg_inv \<lparr>id_counter = (1::int), directory = [(''g'', [(1::int, (''g'', 1::int))])]\<rparr> \<and>
   all_ids (Registry_init 0 :: token registry) = []"
  using register_reg_inv [OF reg_inv_init token_register_example [unfolded token_register_def]]
  by (simp add: all_ids_def Registry_init_def)

lemma register_get_entries_witness:
  "get_entries ''g'' 1 \<lparr>id_counter = (1::int), directory = [(''g'', [(1::int, (''g'', 1::int))])]\<rparr> =
     [(''g'', 1)]"
  using register_get_entries [OF reg_inv_init token_register_example [unfolded token_register_def],
      of "''g''" 1]
  by simp

lemma get_entry_count_ignores_entries_witness:
  "get_entry_count ''g''
     (snd (snd (token_register (''g'', 0)
        \<lparr>id_counter = (1::int), directory = [(''g'', [(1::int, (''g'', 1::int))])]\<rparr>))) = 1"
proof -
  let ?r = "\<lparr>id_counter = (1::int), directory = [(''g'', [(1::int, (''g'', 1::int))])]\<rparr>"
  have "fst (''g'', 0::int) \<in> set (map fst (directory ?r))" by simp
  from get_entry_count_ignores_entries [of fst "(''g'', 0)" ?r "\<lambda>nid t. (fst t, nid)", OF this]
  show ?thesis by (simp add: token_register_def get_entry_count_def)
qed

end
