(* ===== verification/Observer.thy ===== *)
theory Observer
  imports Prelude
begin

text \<open>
  The observers of \<open>src/soyutnet/observer.py\<close>. An \<open>Observer\<close> keeps the
  token counters its place reports (\<open>inc_token_count\<close>) and a history of
  records \<open>(time, ((label, count), ...), requester)\<close> appended by \<open>save\<close>,
  trimmed by a hysteresis comparator when \<open>record_limit > 0\<close>. A
  \<open>ComparativeObserver\<close> (a record extension) compares each new record with
  expected column values and raises on the first difference.

  Both guard their state with one \<open>asyncio.Lock\<close> (field \<open>obs_locked\<close>).
  Acquiring a free \<open>asyncio.Lock\<close> does not suspend, and no code between an
  acquire and its release suspends, so the lock is found held only when the
  task that holds it waits forever; acquiring a held lock is therefore
  \<open>Stuck\<close>. The lock is not reentrant: \<open>save\<close> holds it while \<open>_save\<close> calls
  \<open>_clean_records\<close>, which acquires it again.
\<close>

section \<open>State\<close>

type_synonym obs_record = "time \<times> (label \<times> int) list \<times> string"

record observer =
  records :: "obs_record list"
  record_limit :: int
  hysteresis_bounds :: "int \<times> int"
  obs_verbose :: bool
  token_counters :: "(label \<times> int) list"
  obs_ident :: string
  obs_locked :: bool

record cmp_observer = observer +
  expected :: "(int \<times> obs_value list) list"
  expected_index :: nat
  is_still_comparing :: bool
  has_on_comparison_ends :: bool

definition Observer_init :: "int \<Rightarrow> bool \<Rightarrow> string \<Rightarrow> observer" where
  "Observer_init limit verbose pt_ident =
     \<lparr>records = [], record_limit = limit,
      hysteresis_bounds = (py_int_ratio limit 91 100, py_int_ratio limit 11 10),
      obs_verbose = verbose, token_counters = [], obs_ident = pt_ident, obs_locked = False\<rparr>"

definition ComparativeObserver_init ::
  "(int \<times> obs_value list) list \<Rightarrow> bool \<Rightarrow> int \<Rightarrow> bool \<Rightarrow> string \<Rightarrow> cmp_observer" where
  "ComparativeObserver_init exp has_cb limit verbose pt_ident =
     observer.extend (Observer_init limit verbose pt_ident)
       (cmp_observer.fields exp 0 True has_cb)"

section \<open>Operations\<close>

text \<open>The body of \<open>_clean_records\<close> that runs under the lock.\<close>

definition trim_records :: "'a observer_scheme \<Rightarrow> 'a observer_scheme" where
  "trim_records ob =
     (let count = int (length (records ob)) in
      if snd (hysteresis_bounds ob) \<le> count
      then ob\<lparr>records := py_slice_from (records ob) (count - fst (hysteresis_bounds ob))\<rparr>
      else ob)"

definition clean_records :: "'a observer_scheme \<Rightarrow> 'a observer_scheme result" where
  "clean_records ob =
     (if 0 < record_limit ob
      then (if obs_locked ob then Stuck ob else Done (trim_records ob))
      else Done ob)"

definition add_record :: "obs_record \<Rightarrow> 'a observer_scheme \<Rightarrow> 'a observer_scheme" where
  "add_record r ob = ob\<lparr>records := records ob @ [r]\<rparr>"

text \<open>\<open>Observer._save\<close>; the flag is whether \<open>on_comparison_ends\<close> was called.\<close>

definition Observer__save :: "obs_record \<Rightarrow> observer \<Rightarrow> (observer \<times> bool) result" where
  "Observer__save r ob =
     (case clean_records (add_record r ob) of
        Done ob' \<Rightarrow> Done (ob', False)
      | Failed e \<Rightarrow> Failed e
      | Stuck ob' \<Rightarrow> Stuck (ob', False))"

text \<open>Column \<open>c\<close> of a record tuple: Python indexing of a 3-tuple.\<close>

definition record_column :: "obs_record \<Rightarrow> int \<Rightarrow> error + obs_value" where
  "record_column r c =
     (let j = (if c < 0 then c + 3 else c) in
      if j = 0 then Inr (VTime (fst r))
      else if j = 1 then Inr (VTokens (fst (snd r)))
      else if j = 2 then Inr (VStr (snd (snd r)))
      else Inl IndexError)"

text \<open>The loop over \<open>self._expected\<close> in \<open>ComparativeObserver._save\<close>.\<close>

fun compare_columns ::
  "string \<Rightarrow> obs_record \<Rightarrow> nat \<Rightarrow> (int \<times> obs_value list) list \<Rightarrow> nat \<Rightarrow> error + nat" where
  "compare_columns ident r idx [] cc = Inr cc"
| "compare_columns ident r idx ((col, vals) # es) cc =
     (if length vals \<le> idx then compare_columns ident r idx es cc
      else (case record_column r col of
              Inl e \<Rightarrow> Inl e
            | Inr v \<Rightarrow>
                if v \<noteq> vals ! idx then Inl (Mismatch ident col v (vals ! idx))
                else compare_columns ident r idx es
                       (if idx \<le> length vals - 1 then Suc cc else cc)))"

definition ComparativeObserver__save ::
  "obs_record \<Rightarrow> cmp_observer \<Rightarrow> (cmp_observer \<times> bool) result" where
  "ComparativeObserver__save r ob =
     (if is_still_comparing ob then
        (case compare_columns (obs_ident ob) r (expected_index ob) (expected ob) 0 of
           Inl e \<Rightarrow> Failed e
         | Inr cc \<Rightarrow>
             (let ob1 = ob\<lparr>expected_index := Suc (expected_index ob)\<rparr>;
                  ob2 = (if cc = 0 then ob1\<lparr>is_still_comparing := False\<rparr> else ob1)
              in Done (add_record r ob2, cc = 0 \<and> has_on_comparison_ends ob)))
      else Done (add_record r ob, False))"

text \<open>
  \<open>save(requester)\<close>: under the lock, snapshot the counters in dictionary
  order and the clock, and call the class's \<open>_save\<close>; the lock is released
  when \<open>_save\<close> returns or raises.
\<close>

definition save_with ::
  "(obs_record \<Rightarrow> 'a observer_scheme \<Rightarrow> ('a observer_scheme \<times> bool) result) \<Rightarrow>
   time \<Rightarrow> string \<Rightarrow> 'a observer_scheme \<Rightarrow> ('a observer_scheme \<times> bool) result" where
  "save_with do_save now requester ob =
     (let req = (if requester = [] then ''n/a'' else requester) in
      if obs_locked ob then Stuck (ob, False)
      else (case do_save (now, token_counters ob, req) (ob\<lparr>obs_locked := True\<rparr>) of
              Done (ob', ev) \<Rightarrow> Done (ob'\<lparr>obs_locked := False\<rparr>, ev)
            | Failed e \<Rightarrow> Failed e
            | Stuck s \<Rightarrow> Stuck s))"

definition Observer_save :: "time \<Rightarrow> string \<Rightarrow> observer \<Rightarrow> (observer \<times> bool) result" where
  "Observer_save = save_with Observer__save"

definition ComparativeObserver_save ::
  "time \<Rightarrow> string \<Rightarrow> cmp_observer \<Rightarrow> (cmp_observer \<times> bool) result" where
  "ComparativeObserver_save = save_with ComparativeObserver__save"

definition inc_token_count :: "label \<Rightarrow> int \<Rightarrow> 'a observer_scheme \<Rightarrow> 'a observer_scheme result" where
  "inc_token_count lbl inc ob =
     (if obs_locked ob then Stuck ob
      else Done (ob\<lparr>token_counters := dict_add (token_counters ob) lbl inc\<rparr>))"

datatype records_view = AllRecords "obs_record list" | ColumnValues "obs_value list"

fun column_values :: "int \<Rightarrow> obs_record list \<Rightarrow> error + obs_value list" where
  "column_values c [] = Inr []"
| "column_values c (r # rs) =
     (case record_column r c of
        Inl e \<Rightarrow> Inl e
      | Inr v \<Rightarrow> (case column_values c rs of Inl e \<Rightarrow> Inl e | Inr vs \<Rightarrow> Inr (v # vs)))"

definition get_records :: "int \<Rightarrow> 'a observer_scheme \<Rightarrow> error + records_view" where
  "get_records column ob =
     (if column < 0 then Inr (AllRecords (records ob))
      else (case column_values column (records ob) of
              Inl e \<Rightarrow> Inl e | Inr vs \<Rightarrow> Inr (ColumnValues vs)))"

subsection \<open>Observers as the places hold them\<close>

datatype observer_obj = PlainObs observer | CmpObs cmp_observer

fun obs_save :: "time \<Rightarrow> string \<Rightarrow> observer_obj \<Rightarrow> (observer_obj \<times> bool) result" where
  "obs_save now req (PlainObs ob) =
     (case Observer_save now req ob of
        Done (ob', ev) \<Rightarrow> Done (PlainObs ob', ev) | Failed e \<Rightarrow> Failed e
      | Stuck (ob', ev) \<Rightarrow> Stuck (PlainObs ob', ev))"
| "obs_save now req (CmpObs ob) =
     (case ComparativeObserver_save now req ob of
        Done (ob', ev) \<Rightarrow> Done (CmpObs ob', ev) | Failed e \<Rightarrow> Failed e
      | Stuck (ob', ev) \<Rightarrow> Stuck (CmpObs ob', ev))"

fun obs_inc :: "label \<Rightarrow> int \<Rightarrow> observer_obj \<Rightarrow> observer_obj result" where
  "obs_inc lbl n (PlainObs ob) =
     (case inc_token_count lbl n ob of
        Done ob' \<Rightarrow> Done (PlainObs ob') | Failed e \<Rightarrow> Failed e | Stuck ob' \<Rightarrow> Stuck (PlainObs ob'))"
| "obs_inc lbl n (CmpObs ob) =
     (case inc_token_count lbl n ob of
        Done ob' \<Rightarrow> Done (CmpObs ob') | Failed e \<Rightarrow> Failed e | Stuck ob' \<Rightarrow> Stuck (CmpObs ob'))"

fun obs_counters :: "observer_obj \<Rightarrow> (label \<times> int) list" where
  "obs_counters (PlainObs ob) = token_counters ob"
| "obs_counters (CmpObs ob) = token_counters ob"

fun obs_records :: "observer_obj \<Rightarrow> obs_record list" where
  "obs_records (PlainObs ob) = records ob"
| "obs_records (CmpObs ob) = records ob"

fun obs_is_locked :: "observer_obj \<Rightarrow> bool" where
  "obs_is_locked (PlainObs ob) = obs_locked ob"
| "obs_is_locked (CmpObs ob) = obs_locked ob"

section \<open>Well-formedness and evaluation rules\<close>

text \<open>
  The constructor derives the hysteresis bounds from the limit, and no
  operation writes either field.
\<close>

definition obs_wf :: "'a observer_scheme \<Rightarrow> bool" where
  "obs_wf ob \<longleftrightarrow>
     hysteresis_bounds ob = (py_int_ratio (record_limit ob) 91 100, py_int_ratio (record_limit ob) 11 10)"

text \<open>
  The types of the columns of a record as \<open>get_records\<close> returns them:
  column 0 the time, column 1 the counters, column 2 the requester, which
  \<open>save\<close> never leaves empty. An observer's history is well-typed when
  every requester is non-empty.
\<close>

definition col_typed :: "int \<Rightarrow> obs_value \<Rightarrow> bool" where
  "col_typed c v = (case v of VTime _ \<Rightarrow> c = 0 | VTokens _ \<Rightarrow> c = 1 | VStr s \<Rightarrow> c = 2 \<and> s \<noteq> [])"

definition records_ok :: "obs_record list \<Rightarrow> bool" where
  "records_ok rs = list_all (\<lambda>r. snd (snd r) \<noteq> []) rs"

text \<open>
  The comparison of \<open>ComparativeObserver._save\<close> stated without the loop:
  the columns that still have a value at the index are compared; the first
  of them whose value differs fails (an \<open>IndexError\<close> for a column the
  record does not have, a mismatch otherwise); when none differs, the count
  is the number of such columns.
\<close>

definition compare_ref ::
  "string \<Rightarrow> obs_record \<Rightarrow> nat \<Rightarrow> (int \<times> obs_value list) list \<Rightarrow> error + nat" where
  "compare_ref ident r idx es =
     (let live = filter (\<lambda>(col, vals). idx < length vals) es in
      case find (\<lambda>(col, vals). record_column r col \<noteq> Inr (vals ! idx)) live of
        None \<Rightarrow> Inr (length live)
      | Some (col, vals) \<Rightarrow>
          (case record_column r col of
             Inl e \<Rightarrow> Inl e
           | Inr v \<Rightarrow> Inl (Mismatch ident col v (vals ! idx))))"

lemma obs_wf_Observer_init [simp]: "obs_wf (Observer_init l v i)"
  by (simp add: obs_wf_def Observer_init_def)

lemma py_int_ratio_pos: "0 < x \<Longrightarrow> 0 < n \<Longrightarrow> py_int_ratio x n d = (x * n) div d"
  by (simp add: py_int_ratio_def sgn_mult zero_less_mult_iff)

lemma hysteresis_pos:
  assumes "0 < l"
  shows "0 \<le> py_int_ratio l 91 100 \<and> py_int_ratio l 91 100 < l \<and> l \<le> py_int_ratio l 11 10"
  using assms by (simp add: py_int_ratio_pos) linarith

lemma add_record_simps [simp, observer_simps]:
  "records (add_record r ob) = records ob @ [r]"
  "record_limit (add_record r ob) = record_limit ob"
  "hysteresis_bounds (add_record r ob) = hysteresis_bounds ob"
  "obs_locked (add_record r ob) = obs_locked ob"
  "token_counters (add_record r ob) = token_counters ob"
  by (simp_all add: add_record_def)

lemma save_with_unlocked [observer_simps]:
  "\<not> obs_locked ob \<Longrightarrow>
   save_with f now req ob =
     (case f (now, token_counters ob, if req = [] then ''n/a'' else req) (ob\<lparr>obs_locked := True\<rparr>) of
        Done (ob', ev) \<Rightarrow> Done (ob'\<lparr>obs_locked := False\<rparr>, ev) | Failed e \<Rightarrow> Failed e
      | Stuck s \<Rightarrow> Stuck s)"
  by (simp add: save_with_def Let_def)

section \<open>Properties of the observers\<close>

text \<open>
  C3. \<open>Observer.save\<close> never returns when \<open>record_limit > 0\<close>: it holds the
  observer's lock while \<open>_save\<close> calls \<open>_clean_records\<close>, which waits for
  the same non-reentrant lock. The record has been appended and the lock
  stays held, so every later \<open>save\<close> or \<open>inc_token_count\<close> on this
  observer waits forever too.
\<close>

theorem Observer_save_deadlock:
  assumes "0 < record_limit ob" and "\<not> obs_locked ob"
    and "r = (now, token_counters ob, if req = [] then ''n/a'' else req)"
  shows "Observer_save now req ob = Stuck (add_record r (ob\<lparr>obs_locked := True\<rparr>), False) \<and>
         inc_token_count l n (add_record r (ob\<lparr>obs_locked := True\<rparr>)) =
           Stuck (add_record r (ob\<lparr>obs_locked := True\<rparr>))"
  using assms
  by (simp add: Observer_save_def save_with_unlocked Observer__save_def clean_records_def
      inc_token_count_def)

text \<open>
  C24. The hysteresis comparator, run where the lock is free: with the bounds
  the constructor derives from a positive limit, appending a record to a
  history shorter than the upper bound and cleaning keeps it shorter than the
  upper bound; what is kept is a suffix of the history, and a history that
  is trimmed is trimmed to exactly the lower bound.
\<close>

theorem clean_records_bound:
  assumes wf: "obs_wf ob" and pos: "0 < record_limit ob" and free: "\<not> obs_locked ob"
    and short: "int (length (records ob)) < snd (hysteresis_bounds ob)"
  shows "\<exists>ob' k. clean_records (add_record r ob) = Done ob' \<and>
            int (length (records ob')) < snd (hysteresis_bounds ob') \<and>
            records ob' = drop k (records ob @ [r]) \<and>
            (k = 0 \<or> int (length (records ob')) = fst (hysteresis_bounds ob'))"
proof -
  let ?lo = "fst (hysteresis_bounds ob)" and ?hi = "snd (hysteresis_bounds ob)"
  let ?n = "int (length (records ob)) + 1"
  have b: "0 \<le> ?lo \<and> ?lo < record_limit ob \<and> record_limit ob \<le> ?hi"
    using wf pos hysteresis_pos [OF pos] by (simp add: obs_wf_def)
  show ?thesis
  proof (cases "?hi \<le> ?n")
    case True
    then have "?n = ?hi" using short by simp
    then have len: "int (length (drop (nat (?n - ?lo)) (records ob @ [r]))) = ?lo"
      using b by simp arith
    with b have lt: "int (length (drop (nat (?n - ?lo)) (records ob @ [r]))) < ?hi" by linarith
    have "?lo \<le> ?n" using b True by linarith
    with True pos free have
      "clean_records (add_record r ob) =
         Done ((add_record r ob)\<lparr>records := drop (nat (?n - ?lo)) (records ob @ [r])\<rparr>)"
      by (simp add: clean_records_def trim_records_def py_slice_from_def Let_def add.commute)
    with len lt show ?thesis
      by (intro exI [of _ "(add_record r ob)\<lparr>records := drop (nat (?n - ?lo)) (records ob @ [r])\<rparr>"]
          exI [of _ "nat (?n - ?lo)"]) (simp add: add_record_def)
  next
    case False
    with pos free show ?thesis
      by (intro exI [of _ "add_record r ob"] exI [of _ 0])
         (simp add: clean_records_def trim_records_def)
  qed
qed

text \<open>
  C25. With no limit, \<open>save\<close> appends the snapshot of the counters, the
  clock and the requester (\<open>''n/a''\<close> when empty), and releases the lock.
\<close>

theorem Observer_save_unlimited:
  assumes "record_limit ob \<le> 0" and "\<not> obs_locked ob"
  shows "Observer_save now req ob =
           Done (add_record (now, token_counters ob, if req = [] then ''n/a'' else req) ob, False)"
  using assms
  by (simp add: Observer_save_def save_with_unlocked Observer__save_def clean_records_def)
     (simp add: add_record_def)

text \<open>
  C26. \<open>inc_token_count\<close> adds the signed delta to the counter of its label
  and to no other; a label seen for the first time joins the end of the
  counters, which is the order \<open>save\<close> snapshots them in.
\<close>

theorem inc_token_count_delta:
  assumes "\<not> obs_locked ob"
  shows "\<exists>ob'. inc_token_count l n ob = Done ob' \<and>
           (\<forall>l'. dict_count (token_counters ob') l' =
                   dict_count (token_counters ob) l' + (if l' = l then n else 0)) \<and>
           map fst (token_counters ob') =
             (if l \<in> set (map fst (token_counters ob)) then map fst (token_counters ob)
              else map fst (token_counters ob) @ [l]) \<and>
           records ob' = records ob"
  using assms by (simp add: inc_token_count_def)

section \<open>Types of the records\<close>

lemma records_ok_append [simp]: "records_ok (rs @ [r]) \<longleftrightarrow> records_ok rs \<and> snd (snd r) \<noteq> []"
  by (simp add: records_ok_def)

lemma records_ok_slice: "records_ok rs \<Longrightarrow> records_ok (py_slice_from rs i)"
  by (auto simp: records_ok_def py_slice_from_def list_all_iff dest: in_set_dropD)

lemma records_ok_clean:
  "records_ok (records ob) \<Longrightarrow> clean_records ob = Done ob' \<Longrightarrow> records_ok (records ob')"
  by (auto simp: clean_records_def trim_records_def Let_def records_ok_slice split: if_splits)

lemma column_values_typed:
  assumes "records_ok rs" and "0 \<le> c" and "c < 3"
  shows "\<exists>vs. column_values c rs = Inr vs \<and> length vs = length rs \<and> list_all (col_typed c) vs"
  using assms
proof (induction rs)
  case Nil
  then show ?case by simp
next
  case (Cons r rs)
  have "c = 0 \<or> c = 1 \<or> c = 2" using Cons.prems(2,3) by arith
  with Cons show ?case
    by (auto simp: record_column_def col_typed_def records_ok_def)
qed

lemma save_with_records_ok:
  assumes f: "\<And>r ob ob' ev. f r ob = Done (ob', ev) \<Longrightarrow> records_ok (records ob) \<Longrightarrow> snd (snd r) \<noteq> [] \<Longrightarrow>
              records_ok (records ob')"
    and s: "save_with f now req ob = Done (ob', ev)" and ok: "records_ok (records ob)"
  shows "records_ok (records ob')"
proof -
  let ?r = "(now, token_counters ob, if req = [] then ''n/a'' else req)"
  have u: "\<not> obs_locked ob" using s by (auto simp: save_with_def Let_def)
  then obtain ob1 where d: "f ?r (ob\<lparr>obs_locked := True\<rparr>) = Done (ob1, ev)" and o: "ob' = ob1\<lparr>obs_locked := False\<rparr>"
    using s by (auto simp: save_with_unlocked split: result.splits prod.splits)
  have "records_ok (records ob1)" using f [OF d] ok by simp
  with o show ?thesis by simp
qed

lemma Observer__save_records_ok:
  "Observer__save r ob = Done (ob', ev) \<Longrightarrow> records_ok (records ob) \<Longrightarrow> snd (snd r) \<noteq> [] \<Longrightarrow>
   records_ok (records ob')"
proof -
  assume s: "Observer__save r ob = Done (ob', ev)" and ok: "records_ok (records ob)" and nz: "snd (snd r) \<noteq> []"
  then have c: "clean_records (add_record r ob) = Done ob'"
    by (auto simp: Observer__save_def split: result.splits)
  have "records_ok (records (add_record r ob))" using ok nz by simp
  then show ?thesis using records_ok_clean c by blast
qed

lemma ComparativeObserver__save_records_ok:
  "ComparativeObserver__save r ob = Done (ob', ev) \<Longrightarrow> records_ok (records ob) \<Longrightarrow> snd (snd r) \<noteq> [] \<Longrightarrow>
   records_ok (records ob')"
  by (auto simp: ComparativeObserver__save_def Let_def split: if_splits sum.splits)

text \<open>C16. Every record that \<open>save\<close> appends to either kind of observer has a
  non-empty requester, and trimming keeps only saved records, so the history
  stays well-typed through every save.\<close>

theorem obs_save_records_ok:
  assumes "records_ok (obs_records ob)" and "obs_save now req ob = Done (ob', ev)"
  shows "records_ok (obs_records ob')"
proof (cases ob)
  case (PlainObs o1)
  show ?thesis
  proof (cases "Observer_save now req o1")
    case (Done p)
    obtain o1' e where p: "p = (o1', e)" by fastforce
    have o: "ob' = PlainObs o1'" using Done p PlainObs assms(2) by simp
    have "records_ok (records o1')"
      using save_with_records_ok [OF Observer__save_records_ok, where now = now and req = req and ob = o1 and ob' = o1' and ev = e] Done p PlainObs assms(1)
      by (simp add: Observer_save_def)
    with o show ?thesis by simp
  qed (use PlainObs assms(2) in \<open>auto split: prod.splits\<close>)
next
  case (CmpObs o1)
  show ?thesis
  proof (cases "ComparativeObserver_save now req o1")
    case (Done p)
    obtain o1' e where p: "p = (o1', e)" by fastforce
    have o: "ob' = CmpObs o1'" using Done p CmpObs assms(2) by simp
    have "records_ok (records o1')"
      using save_with_records_ok [OF ComparativeObserver__save_records_ok, where now = now and req = req and ob = o1 and ob' = o1' and ev = e] Done p CmpObs assms(1)
      by (simp add: ComparativeObserver_save_def)
    with o show ?thesis by simp
  qed (use CmpObs assms(2) in \<open>auto split: prod.splits\<close>)
qed

text \<open>C17. On a well-typed history, get_records at column 0, 1 or 2 never raises: it
  returns one value per record, of the column's type (time, counters,
  non-empty requester string).\<close>

theorem get_records_typed:
  assumes "records_ok (records ob)" and "0 \<le> c" and "c < 3"
  shows "\<exists>vs. get_records c ob = Inr (ColumnValues vs) \<and> length vs = length (records ob) \<and>
           list_all (col_typed c) vs"
  using column_values_typed [OF assms] assms(2) by (auto simp: get_records_def)

section \<open>The comparison loop\<close>

lemma compare_columns_ref:
  "compare_columns ident r idx es cc =
     (case compare_ref ident r idx es of Inl e \<Rightarrow> Inl e | Inr n \<Rightarrow> Inr (cc + n))"
  by (induction ident r idx es cc rule: compare_columns.induct)
    (auto simp: compare_ref_def Let_def split: sum.splits option.splits)

text \<open>C10. The loop of ComparativeObserver._save over the expected columns,
  with its continue for exhausted columns, its raise on the first
  difference and its running count, computes the reference comparison: the
  first live column that differs fails, otherwise the count is the number
  of columns that still have a value at the index.\<close>

theorem compare_columns_equiv:
  "compare_columns ident r idx es 0 = compare_ref ident r idx es"
  by (simp add: compare_columns_ref split: sum.split)

text \<open>C11. A ComparativeObserver still comparing stops comparing at a save
  exactly when no expected column has a value at the current index, and the
  index advances by one at every save. So the comparison ends one save
  after the last expected value was checked, not at the save that checks
  it: at that save the column still counts, since the code tests
  len(expected[column]) - 1 >= index before advancing the index.\<close>

theorem comparison_ends_late:
  assumes "is_still_comparing ob" and "ComparativeObserver__save r ob = Done (ob', ev)"
  shows "(\<not> is_still_comparing ob' \<longleftrightarrow>
            list_all (\<lambda>(col, vals). length vals \<le> expected_index ob) (expected ob)) \<and>
         expected_index ob' = Suc (expected_index ob) \<and> records ob' = records ob @ [r]"
  using assms
  by (auto simp: ComparativeObserver__save_def compare_columns_ref compare_ref_def Let_def filter_empty_conv
      list_all_iff not_less add_record_def case_prod_unfold split: sum.splits option.splits if_splits)

text \<open>C20. ComparativeObserver._save appends without calling _clean_records: on
  a free lock, save of a ComparativeObserver, whatever its record_limit,
  either raises on a mismatch or returns with the new record appended to the
  whole history and the lock released; it never trims and never waits.\<close>

theorem ComparativeObserver_save_no_trim:
  assumes "\<not> obs_locked ob"
  shows "(\<exists>ob' ev. ComparativeObserver_save now req ob = Done (ob', ev) \<and>
            records ob' = records ob @ [(now, token_counters ob, if req = [] then ''n/a'' else req)] \<and>
            \<not> obs_locked ob') \<or>
         (\<exists>e. ComparativeObserver_save now req ob = Failed e)"
  using assms
  by (auto simp: ComparativeObserver_save_def save_with_def ComparativeObserver__save_def Let_def
      add_record_def split: sum.splits)

text \<open>C21. get_records at a column past the record tuple: Python indexes each
  record, so the call raises IndexError as soon as there is one record, and
  returns an empty list on an empty history, where nothing is indexed.\<close>

theorem get_records_out_of_range:
  assumes "3 \<le> c"
  shows "get_records c ob = (if records ob = [] then Inr (ColumnValues []) else Inl IndexError)"
proof (cases "records ob")
  case (Cons r rs)
  have "record_column r c = Inl IndexError" using assms by (simp add: record_column_def)
  with Cons assms show ?thesis by (simp add: get_records_def)
qed (use assms in \<open>simp add: get_records_def\<close>)

section \<open>Witnesses\<close>

lemma Observer_save_deadlock_witness:
  "Observer_save 7 [] (Observer_init 10 False ''p1'') =
     Stuck (add_record (7, [], ''n/a'') ((Observer_init 10 False ''p1'')\<lparr>obs_locked := True\<rparr>), False) \<and>
   inc_token_count ''g'' 1 (add_record (7, [], ''n/a'') ((Observer_init 10 False ''p1'')\<lparr>obs_locked := True\<rparr>)) =
     Stuck (add_record (7, [], ''n/a'') ((Observer_init 10 False ''p1'')\<lparr>obs_locked := True\<rparr>))"
  using Observer_save_deadlock [of "Observer_init 10 False ''p1''" "(7, [], ''n/a'')" 7 "[]"]
  by (simp add: Observer_init_def)

lemma clean_records_bound_witness:
  "\<exists>ob' k. clean_records (add_record (3, [], ''t'')
        ((Observer_init 10 False ''p'')\<lparr>records := replicate 10 (0, [], ''t'')\<rparr>)) = Done ob' \<and>
      int (length (records ob')) < snd (hysteresis_bounds ob') \<and>
      records ob' = drop k (records ((Observer_init 10 False ''p'')\<lparr>records := replicate 10 (0, [], ''t'')\<rparr>) @ [(3, [], ''t'')]) \<and>
      (k = 0 \<or> int (length (records ob')) = fst (hysteresis_bounds ob'))"
proof (rule clean_records_bound)
  show "obs_wf ((Observer_init 10 False ''p'')\<lparr>records := replicate 10 (0, [], ''t'')\<rparr>)"
    by (simp add: obs_wf_def Observer_init_def)
  show "0 < record_limit ((Observer_init 10 False ''p'')\<lparr>records := replicate 10 (0, [], ''t'')\<rparr>)"
    by (simp add: Observer_init_def)
  show "\<not> obs_locked ((Observer_init 10 False ''p'')\<lparr>records := replicate 10 (0, [], ''t'')\<rparr>)"
    by (simp add: Observer_init_def)
  show "int (length (records ((Observer_init 10 False ''p'')\<lparr>records := replicate 10 (0, [], ''t'')\<rparr>)))
        < snd (hysteresis_bounds ((Observer_init 10 False ''p'')\<lparr>records := replicate 10 (0, [], ''t'')\<rparr>))"
    by (simp add: Observer_init_def py_int_ratio_def)
qed

lemma Observer_save_unlimited_witness:
  "Observer_save 5 ''t1'' (Observer_init 0 False ''p1'') =
     Done (add_record (5, [], ''t1'') (Observer_init 0 False ''p1''), False)"
  using Observer_save_unlimited [of "Observer_init 0 False ''p1''" 5 "''t1''"]
  by (simp add: Observer_init_def)

lemma inc_token_count_delta_witness:
  "\<exists>ob'. inc_token_count ''g'' 4 (Observer_init 0 False ''p1'') = Done ob' \<and>
      (\<forall>l'. dict_count (token_counters ob') l' =
              dict_count (token_counters (Observer_init 0 False ''p1'')) l' + (if l' = ''g'' then 4 else 0)) \<and>
      map fst (token_counters ob') =
        (if ''g'' \<in> set (map fst (token_counters (Observer_init 0 False ''p1'')))
         then map fst (token_counters (Observer_init 0 False ''p1''))
         else map fst (token_counters (Observer_init 0 False ''p1'')) @ [''g'']) \<and>
      records ob' = records (Observer_init 0 False ''p1'')"
  by (rule inc_token_count_delta) (simp add: Observer_init_def)

lemma obs_save_records_ok_witness:
  "records_ok (obs_records (PlainObs (Observer_init 0 False ''p''))) \<and>
   obs_save 3 [] (PlainObs (Observer_init 0 False ''p'')) =
     Done (PlainObs ((Observer_init 0 False ''p'')\<lparr>records := [(3, [], ''n/a'')]\<rparr>), False) \<and>
   records_ok (obs_records (PlainObs ((Observer_init 0 False ''p'')\<lparr>records := [(3, [], ''n/a'')]\<rparr>)))"
proof -
  have r: "records_ok (obs_records (PlainObs (Observer_init 0 False ''p'')))"
    by (simp add: records_ok_def Observer_init_def)
  have s: "obs_save 3 [] (PlainObs (Observer_init 0 False ''p'')) =
     Done (PlainObs ((Observer_init 0 False ''p'')\<lparr>records := [(3, [], ''n/a'')]\<rparr>), False)"
    by (simp add: Observer_init_def Observer_save_def save_with_def Observer__save_def clean_records_def
        add_record_def)
  show ?thesis using r s obs_save_records_ok [OF r s] by simp
qed

lemma get_records_typed_witness:
  "records_ok (records ((Observer_init 0 False ''p'')\<lparr>records := [(3, [(''g'', 2)], ''t1'')]\<rparr>)) \<and>
   (0 :: int) \<le> 1 \<and> (1 :: int) < 3 \<and>
   get_records 1 ((Observer_init 0 False ''p'')\<lparr>records := [(3, [(''g'', 2)], ''t1'')]\<rparr>) =
     Inr (ColumnValues [VTokens [(''g'', 2)]]) \<and>
   list_all (col_typed 1) [VTokens [(''g'', 2)]]"
proof -
  let ?ob = "(Observer_init 0 False ''p'')\<lparr>records := [(3, [(''g'', 2)], ''t1'')]\<rparr>"
  have r: "records_ok (records ?ob)" by (simp add: records_ok_def)
  obtain vs where "get_records 1 ?ob = Inr (ColumnValues vs)" "list_all (col_typed 1) vs"
    using get_records_typed [OF r, of 1] by auto
  moreover have "get_records 1 ?ob = Inr (ColumnValues [VTokens [(''g'', 2)]])"
    by (simp add: get_records_def record_column_def)
  ultimately show ?thesis using r by simp
qed

theorem comparison_ends_late_witness:
  "is_still_comparing (ComparativeObserver_init [(2, [VStr ''t''])] False 0 False ''p'') \<and>
   ComparativeObserver__save (0, [], ''t'') (ComparativeObserver_init [(2, [VStr ''t''])] False 0 False ''p'') =
     Done ((ComparativeObserver_init [(2, [VStr ''t''])] False 0 False ''p'')
             \<lparr>records := [(0, [], ''t'')], expected_index := 1\<rparr>, False) \<and>
   is_still_comparing
     ((ComparativeObserver_init [(2, [VStr ''t''])] False 0 False ''p'')
        \<lparr>records := [(0, [], ''t'')], expected_index := 1\<rparr>)"
proof -
  let ?ob = "ComparativeObserver_init [(2, [VStr ''t''])] False 0 False ''p''"
  let ?ob' = "?ob\<lparr>records := [(0, [], ''t'')], expected_index := 1\<rparr>"
  have s: "is_still_comparing ?ob" and sv: "ComparativeObserver__save (0, [], ''t'') ?ob = Done (?ob', False)"
    by (simp_all add: ComparativeObserver_init_def Observer_init_def observer.extend_def
        cmp_observer.fields_def ComparativeObserver__save_def record_column_def add_record_def)
  have "\<not> list_all (\<lambda>(col, vals). length vals \<le> expected_index ?ob) (expected ?ob)"
    by (simp add: ComparativeObserver_init_def Observer_init_def observer.extend_def cmp_observer.fields_def)
  then show ?thesis using s sv comparison_ends_late [OF s sv] by blast
qed
theorem ComparativeObserver_save_no_trim_witness:
  "\<not> obs_locked (ComparativeObserver_init [] False 1 False ''p'') \<and>
   ((\<exists>ob' ev. ComparativeObserver_save 0 [] (ComparativeObserver_init [] False 1 False ''p'') = Done (ob', ev) \<and>
      records ob' = [(0, [], ''n/a'')] \<and> \<not> obs_locked ob') \<or>
    (\<exists>e. ComparativeObserver_save 0 [] (ComparativeObserver_init [] False 1 False ''p'') = Failed e))"
proof -
  have l: "\<not> obs_locked (ComparativeObserver_init [] False 1 False ''p'')"
    and e: "records (ComparativeObserver_init [] False 1 False ''p'') = []"
    and c: "token_counters (ComparativeObserver_init [] False 1 False ''p'') = []"
    by (simp_all add: ComparativeObserver_init_def Observer_init_def observer.extend_def cmp_observer.fields_def)
  show ?thesis using ComparativeObserver_save_no_trim [OF l, of 0 "[]"] l e c by simp
qed
theorem get_records_out_of_range_witness:
  "3 \<le> (3::int) \<and> get_records 3 (Observer_init 0 False ''p''\<lparr>records := [(0, [], ''t'')]\<rparr>) = Inl IndexError"
  using get_records_out_of_range [of 3 "Observer_init 0 False ''p''\<lparr>records := [(0, [], ''t'')]\<rparr>"] by simp
end
