(* ===== verification/Net.thy ===== *)
theory Net
  imports Registry Observer
begin

text \<open>
  Places, arcs and transitions, and one turn of each actor. The Python
  modules (\<open>pt_common.py\<close>, \<open>place.py\<close>, \<open>transition.py\<close>, \<open>token.py\<close>)
  are not among the sources at hand, so this theory follows the
  specification (sections 3, 4.2 to 4.4 and 5); it calls the modelled code of
  \<open>registry.py\<close> (tokens are minted by \<open>TokenRegistry.register\<close>) and of
  \<open>observer.py\<close> (places report every count change to their observer with
  \<open>inc_token_count\<close>, an enabled transition asks the observers of its input
  places to \<open>save\<close>).

  The net is one record: the places and transitions (an actor is its index),
  the token registry and the clock. A turn is a function from the net to an
  \<open>outcome\<close>: it returns a value and the new net, raises, or blocks for
  ever on an observer's lock, leaving the net as it was at that point. A turn
  contains no suspension point, so the model runs it as one step; the
  interleaving of turns is in theory \<open>Orchestrator\<close>.

  Choices where the specification leaves room, each from the words of the
  specification: a consumed token is dropped and an output arc mints fresh
  tokens of its label; a roll-back returns the tokens with \<open>put\<close>, so they
  join the tail of their queue; an enabled transition asks for one
  \<open>save\<close> per input arc, before taking, naming itself as the requester (the
  expected history of \<open>src/tests/n_tester.py\<close> needs the snapshot before the
  firing); each place holds its own observer.
\<close>

section \<open>Data\<close>

record arc =
  arc_place :: nat
  arc_trans :: nat
  weight :: nat
  arc_label :: label

datatype place_kind = PlainPlace | SpecialPlace bool bool
  \<comment> \<open>a \<open>SpecialPlace\<close> with or without a producer and a consumer\<close>

record place =
  p_name :: string
  p_id :: id_t
  p_label :: label
  p_kind :: place_kind
  p_tokens :: "label \<Rightarrow> token list"
  p_observer :: "observer_obj option"
  p_inputs :: "arc list"
  p_outputs :: "arc list"

record transition =
  t_name :: string
  t_id :: id_t
  t_label :: label
  t_observer :: "observer_obj option"
  t_inputs :: "arc list"
  t_outputs :: "arc list"

record net =
  places :: "place list"
  transitions :: "transition list"
  tokreg :: "token registry"
  clock :: time

datatype actor = APlace nat | ATrans nat

datatype 'a outcome = Ret 'a net | Raise error | Block net

definition obind :: "'a outcome \<Rightarrow> ('a \<Rightarrow> net \<Rightarrow> 'b outcome) \<Rightarrow> 'b outcome" where
  "obind m f = (case m of Ret a s \<Rightarrow> f a s | Raise e \<Rightarrow> Raise e | Block s \<Rightarrow> Block s)"

section \<open>Construction\<close>

definition set_place :: "nat \<Rightarrow> place \<Rightarrow> net \<Rightarrow> net" where
  "set_place i p s = s\<lparr>places := (places s)[i := p]\<rparr>"

definition set_trans :: "nat \<Rightarrow> transition \<Rightarrow> net \<Rightarrow> net" where
  "set_trans j t s = s\<lparr>transitions := (transitions s)[j := t]\<rparr>"

text \<open>
  \<open>connect(from, to, weight, label)\<close>: an arc from a place to a transition or
  from a transition to a place, of weight at least one, appended to the
  output arcs of its source and the input arcs of its destination.
\<close>

definition connect :: "actor \<Rightarrow> actor \<Rightarrow> int \<Rightarrow> label \<Rightarrow> net \<Rightarrow> error + net" where
  "connect a b w l s =
     (if w < 1 then Inl (ConfigurationError ''arc weight must be at least 1'')
      else (case (a, b) of
        (APlace i, ATrans j) \<Rightarrow>
          (let arc = \<lparr>arc_place = i, arc_trans = j, weight = nat w, arc_label = l\<rparr>;
               p = places s ! i; t = transitions s ! j
           in Inr (set_trans j (t\<lparr>t_inputs := t_inputs t @ [arc]\<rparr>)
                    (set_place i (p\<lparr>p_outputs := p_outputs p @ [arc]\<rparr>) s)))
      | (ATrans j, APlace i) \<Rightarrow>
          (let arc = \<lparr>arc_place = i, arc_trans = j, weight = nat w, arc_label = l\<rparr>;
               p = places s ! i; t = transitions s ! j
           in Inr (set_place i (p\<lparr>p_inputs := p_inputs p @ [arc]\<rparr>)
                    (set_trans j (t\<lparr>t_outputs := t_outputs t @ [arc]\<rparr>) s)))
      | _ \<Rightarrow> Inl (ConfigurationError ''an arc connects a place and a transition'')))"

section \<open>Places\<close>

definition p_count :: "place \<Rightarrow> label \<Rightarrow> nat" where
  "p_count p l = length (p_tokens p l)"

definition set_obs :: "nat \<Rightarrow> observer_obj \<Rightarrow> net \<Rightarrow> net" where
  "set_obs i ob s = set_place i ((places s ! i)\<lparr>p_observer := Some ob\<rparr>) s"

text \<open>Reporting a signed count delta of place \<open>i\<close> to its observer.\<close>

definition report :: "nat \<Rightarrow> label \<Rightarrow> int \<Rightarrow> net \<Rightarrow> unit outcome" where
  "report i l d s =
     (case p_observer (places s ! i) of
        None \<Rightarrow> Ret () s
      | Some ob \<Rightarrow>
          (case obs_inc l d ob of
             Done ob' \<Rightarrow> Ret () (set_obs i ob' s)
           | Failed e \<Rightarrow> Raise e
           | Stuck ob' \<Rightarrow> Block (set_obs i ob' s)))"

definition set_tokens :: "nat \<Rightarrow> label \<Rightarrow> token list \<Rightarrow> net \<Rightarrow> net" where
  "set_tokens i l ts s =
     (let p = places s ! i in set_place i (p\<lparr>p_tokens := (p_tokens p)(l := ts)\<rparr>) s)"

definition put :: "nat \<Rightarrow> label \<Rightarrow> token list \<Rightarrow> net \<Rightarrow> unit outcome" where
  "put i l ts s =
     report i l (int (length ts)) (set_tokens i l (p_tokens (places s ! i) l @ ts) s)"

definition try_take :: "nat \<Rightarrow> label \<Rightarrow> nat \<Rightarrow> net \<Rightarrow> token list option outcome" where
  "try_take i l n s =
     (let q = p_tokens (places s ! i) l in
      if n \<le> length q
      then obind (report i l (- int n) (set_tokens i l (drop n q) s)) (\<lambda>_ s'. Ret (Some (take n q)) s')
      else Ret None s)"

text \<open>
  One turn of a place: a plain place does nothing; a \<open>SpecialPlace\<close> runs
  its producer, whose result (a label, or nothing) the environment gives,
  minting and putting a token of that label, then its consumer, which pops
  the oldest token of the label the environment gives, if there is one.
\<close>

definition place_turn :: "nat \<Rightarrow> label option \<Rightarrow> label option \<Rightarrow> net \<Rightarrow> token option outcome" where
  "place_turn i produced consumed s =
     (case p_kind (places s ! i) of
        PlainPlace \<Rightarrow> Ret None s
      | SpecialPlace has_producer has_consumer \<Rightarrow>
          obind
            (case (if has_producer then produced else None) of
               None \<Rightarrow> Ret () s
             | Some l \<Rightarrow> (let (tkn, r') = mint l (tokreg s) in put i l [tkn] (s\<lparr>tokreg := r'\<rparr>)))
            (\<lambda>_ s1.
               case (if has_consumer then consumed else None) of
                 None \<Rightarrow> Ret None s1
               | Some l \<Rightarrow> obind (try_take i l 1 s1) (\<lambda>r s2. Ret (map_option hd r) s2)))"

section \<open>Transitions\<close>

definition enabled :: "transition \<Rightarrow> net \<Rightarrow> bool" where
  "enabled t s = list_all (\<lambda>a. weight a \<le> p_count (places s ! arc_place a) (arc_label a)) (t_inputs t)"

fun save_inputs :: "string \<Rightarrow> arc list \<Rightarrow> net \<Rightarrow> unit outcome" where
  "save_inputs req [] s = Ret () s"
| "save_inputs req (a # as) s =
     (case p_observer (places s ! arc_place a) of
        None \<Rightarrow> save_inputs req as s
      | Some ob \<Rightarrow>
          (case obs_save (clock s) req ob of
             Done (ob', _) \<Rightarrow> save_inputs req as (set_obs (arc_place a) ob' s)
           | Failed e \<Rightarrow> Raise e
           | Stuck (ob', _) \<Rightarrow> Block (set_obs (arc_place a) ob' s)))"

text \<open>Returning taken tokens, the most recently taken first.\<close>

fun rollback :: "(arc \<times> token list) list \<Rightarrow> net \<Rightarrow> unit outcome" where
  "rollback [] s = Ret () s"
| "rollback ((a, ts) # rest) s = obind (put (arc_place a) (arc_label a) ts s) (\<lambda>_ s'. rollback rest s')"

fun take_inputs ::
  "arc list \<Rightarrow> (arc \<times> token list) list \<Rightarrow> net \<Rightarrow> (arc \<times> token list) list option outcome" where
  "take_inputs [] taken s = Ret (Some (rev taken)) s"
| "take_inputs (a # as) taken s =
     obind (try_take (arc_place a) (arc_label a) (weight a) s)
       (\<lambda>r s'. case r of
                 None \<Rightarrow> obind (rollback taken s') (\<lambda>_ s''. Ret None s'')
               | Some ts \<Rightarrow> take_inputs as ((a, ts) # taken) s')"

fun produce :: "arc list \<Rightarrow> net \<Rightarrow> unit outcome" where
  "produce [] s = Ret () s"
| "produce (a # as) s =
     (let (ts, r') = mint_n (weight a) (arc_label a) (tokreg s)
      in obind (put (arc_place a) (arc_label a) ts (s\<lparr>tokreg := r'\<rparr>)) (\<lambda>_ s'. produce as s'))"

text \<open>
  One turn of transition \<open>j\<close>: \<open>False\<close> when it does not fire (not enabled,
  or a take failed and was rolled back), \<open>True\<close> when it fired.
\<close>

definition fire :: "nat \<Rightarrow> net \<Rightarrow> bool outcome" where
  "fire j s =
     (let t = transitions s ! j in
      if \<not> enabled t s then Ret False s
      else obind (save_inputs (t_name t) (t_inputs t) s)
             (\<lambda>_ s1. obind (take_inputs (t_inputs t) [] s1)
                (\<lambda>r s2. case r of
                          None \<Rightarrow> Ret False s2
                        | Some _ \<Rightarrow> obind (produce (t_outputs t) s2) (\<lambda>_ s3. Ret True s3))))"

section \<open>The abstract firing rule\<close>

text \<open>
  The place/transition net the code implements: a marking counts the tokens
  of each (place, label); a transition needs \<open>pre t\<close> and yields
  \<open>post t\<close>, the multisets of its arcs' (place, label) keys, each arc counted
  with its weight.
\<close>

type_synonym marking = "nat \<times> label \<Rightarrow> nat"

definition marking :: "net \<Rightarrow> marking" where
  "marking s = (\<lambda>(i, l). p_count (places s ! i) l)"

definition arcs_mset :: "arc list \<Rightarrow> (nat \<times> label) multiset" where
  "arcs_mset as = sum_list (map (\<lambda>a. replicate_mset (weight a) (arc_place a, arc_label a)) as)"

definition abs_enabled :: "marking \<Rightarrow> transition \<Rightarrow> bool" where
  "abs_enabled M t \<longleftrightarrow> (\<forall>k \<in># arcs_mset (t_inputs t). count (arcs_mset (t_inputs t)) k \<le> M k)"

definition abs_fire :: "marking \<Rightarrow> transition \<Rightarrow> marking" where
  "abs_fire M t = (\<lambda>k. M k - count (arcs_mset (t_inputs t)) k + count (arcs_mset (t_outputs t)) k)"

text \<open>
  The whole net as an abstract system: a step fires an enabled transition,
  or is the producer of a \<open>SpecialPlace\<close> adding a token, or its consumer
  removing one. Only the transitions and the kinds of the places of \<open>s0\<close> matter.
\<close>

inductive abs_step :: "net \<Rightarrow> marking \<Rightarrow> marking \<Rightarrow> bool" for s0 :: net where
  abs_fire_step: "j < length (transitions s0) \<Longrightarrow> abs_enabled M (transitions s0 ! j) \<Longrightarrow>
     abs_step s0 M (abs_fire M (transitions s0 ! j))"
| abs_produce: "i < length (places s0) \<Longrightarrow> p_kind (places s0 ! i) = SpecialPlace True c \<Longrightarrow>
     abs_step s0 M (M((i, l) := Suc (M (i, l))))"
| abs_consume: "i < length (places s0) \<Longrightarrow> p_kind (places s0 ! i) = SpecialPlace pr True \<Longrightarrow> 0 < M (i, l) \<Longrightarrow>
     abs_step s0 M (M((i, l) := M (i, l) - 1))"

text \<open>
  The tokens of a label in the whole net, and a transition whose arcs of that
  label take and give the same number of tokens (specification, section 8).
\<close>

definition label_total :: "net \<Rightarrow> label \<Rightarrow> nat" where
  "label_total s l = (\<Sum>i<length (places s). p_count (places s ! i) l)"

definition balanced :: "transition \<Rightarrow> label \<Rightarrow> bool" where
  "balanced t l \<longleftrightarrow>
     sum_list (map weight (filter (\<lambda>a. arc_label a = l) (t_inputs t))) =
     sum_list (map weight (filter (\<lambda>a. arc_label a = l) (t_outputs t)))"

section \<open>Abstraction functions and invariants\<close>

text \<open>The token queue of every (place, label), and the parts no turn changes.\<close>

definition queues :: "net \<Rightarrow> nat \<times> label \<Rightarrow> token list" where
  "queues s = (\<lambda>(i, l). p_tokens (places s ! i) l)"

text \<open>
  The shape of an observer: whether it is a \<open>ComparativeObserver\<close>, and its
  record limit. No method of either class writes them.
\<close>

definition obs_shape :: "observer_obj \<Rightarrow> bool \<times> int" where
  "obs_shape ob = (case ob of PlainObs o1 \<Rightarrow> (False, record_limit o1) | CmpObs o1 \<Rightarrow> (True, record_limit o1))"

definition struct ::
  "net \<Rightarrow> transition list \<times>
     (string \<times> id_t \<times> label \<times> place_kind \<times> (bool \<times> int) option \<times> arc list \<times> arc list) list" where
  "struct s = (transitions s,
     map (\<lambda>p. (p_name p, p_id p, p_label p, p_kind p, map_option obs_shape (p_observer p), p_inputs p, p_outputs p))
       (places s))"

text \<open>
  A place is in order when its observer, if any, is not locked and counts
  exactly the tokens of each label the place holds.
\<close>

definition place_ok :: "place \<Rightarrow> bool" where
  "place_ok p \<longleftrightarrow>
     (case p_observer p of None \<Rightarrow> True
      | Some ob \<Rightarrow> \<not> obs_is_locked ob \<and> (\<forall>l. dict_count (obs_counters ob) l = int (p_count p l)))"

definition net_inv :: "net \<Rightarrow> bool" where
  "net_inv s \<longleftrightarrow> (\<forall>p \<in> set (places s). place_ok p)"

text \<open>Every arc of every transition names an existing place.\<close>

definition wf_net :: "net \<Rightarrow> bool" where
  "wf_net s \<longleftrightarrow>
     (\<forall>t \<in> set (transitions s). \<forall>a \<in> set (t_inputs t @ t_outputs t). arc_place a < length (places s))"

text \<open>The tokens a firing has taken so far, as (place, label) keys.\<close>

definition taken_mset :: "(arc \<times> token list) list \<Rightarrow> (nat \<times> label) multiset" where
  "taken_mset taken = sum_list (map (\<lambda>(a, ts). replicate_mset (length ts) (arc_place a, arc_label a)) taken)"

text \<open>No observer of the net has a record limit (the limit that makes \<open>save\<close> deadlock).\<close>

definition obs_nolimit :: "observer_obj \<Rightarrow> bool" where
  "obs_nolimit ob = (case ob of PlainObs o1 \<Rightarrow> record_limit o1 \<le> 0 | CmpObs _ \<Rightarrow> True)"

definition no_limits :: "net \<Rightarrow> bool" where
  "no_limits s \<longleftrightarrow> (\<forall>p \<in> set (places s). case p_observer p of None \<Rightarrow> True | Some ob \<Rightarrow> obs_nolimit ob)"

section \<open>Sequences of queue operations\<close>

text \<open>A client script of \<open>put\<close> and \<open>try_take\<close> calls on one queue, and the tokens it puts.\<close>

datatype qop = QPut "token list" | QTake nat

fun run_ops :: "nat \<Rightarrow> label \<Rightarrow> qop list \<Rightarrow> net \<Rightarrow> token list outcome" where
  "run_ops i l [] s = Ret [] s"
| "run_ops i l (QPut ts # ops) s = obind (put i l ts s) (\<lambda>_ s'. run_ops i l ops s')"
| "run_ops i l (QTake n # ops) s =
     obind (try_take i l n s)
       (\<lambda>r s'. obind (run_ops i l ops s') (\<lambda>tk s''. Ret (case r of None \<Rightarrow> tk | Some ts \<Rightarrow> ts @ tk) s''))"

fun put_lists :: "qop list \<Rightarrow> token list" where
  "put_lists [] = []"
| "put_lists (QPut ts # ops) = ts @ put_lists ops"
| "put_lists (QTake n # ops) = put_lists ops"

section \<open>Lemmas: one operation at a time\<close>

lemma set_place_simps [simp]:
  "transitions (set_place i p s) = transitions s"
  "tokreg (set_place i p s) = tokreg s"
  "clock (set_place i p s) = clock s"
  "places (set_place i p s) = (places s)[i := p]"
  by (simp_all add: set_place_def)

lemma net_inv_set_place:
  "net_inv s \<Longrightarrow> place_ok p \<Longrightarrow> net_inv (set_place i p s)"
  unfolding net_inv_def using set_update_subset_insert by fastforce

lemma queues_set_place:
  assumes "i < length (places s)" and "p_tokens p = (p_tokens (places s ! i))(l := ts)"
  shows "queues (set_place i p s) = (queues s)((i, l) := ts)"
proof (rule ext, clarify)
  fix k l'
  show "queues (set_place i p s) (k, l') = ((queues s)((i, l) := ts)) (k, l')"
    using assms by (cases "k = i") (simp_all add: queues_def)
qed

lemma queues_set_place_same:
  assumes "i < length (places s)" and "p_tokens p = p_tokens (places s ! i)"
  shows "queues (set_place i p s) = queues s"
proof (rule ext, clarify)
  fix k l'
  show "queues (set_place i p s) (k, l') = queues s (k, l')"
    using assms by (cases "k = i") (simp_all add: queues_def)
qed

lemma struct_set_place:
  assumes "i < length (places s)"
    and "(p_name p, p_id p, p_label p, p_kind p, map_option obs_shape (p_observer p), p_inputs p, p_outputs p) =
     (p_name (places s ! i), p_id (places s ! i), p_label (places s ! i), p_kind (places s ! i),
      map_option obs_shape (p_observer (places s ! i)), p_inputs (places s ! i), p_outputs (places s ! i))"
  shows "struct (set_place i p s) = struct s"
proof -
  let ?f = "\<lambda>p. (p_name p, p_id p, p_label p, p_kind p, map_option obs_shape (p_observer p), p_inputs p, p_outputs p)"
  have "map ?f ((places s)[i := p]) = (map ?f (places s))[i := ?f p]"
    by (rule map_update)
  also have "?f p = map ?f (places s) ! i"
    using assms by simp
  also have "(map ?f (places s))[i := map ?f (places s) ! i] = map ?f (places s)"
    by (rule list_update_id)
  finally show ?thesis by (simp add: struct_def)
qed

lemma place_ok_update:
  assumes "place_ok p" and "p_observer p = Some ob"
  shows "\<exists>ob'. obs_inc l (int (length ts) - int (p_count p l)) ob = Done ob' \<and> obs_shape ob' = obs_shape ob \<and>
           place_ok (p\<lparr>p_tokens := (p_tokens p)(l := ts), p_observer := Some ob'\<rparr>)"
  using assms
  by (cases ob) (auto simp: place_ok_def inc_token_count_def p_count_def obs_shape_def)

lemma update_tokens_ok:
  assumes inv: "net_inv s" and i: "i < length (places s)"
  shows "\<exists>s'. report i l (int (length ts) - int (p_count (places s ! i) l)) (set_tokens i l ts s) = Ret () s' \<and>
           net_inv s' \<and> queues s' = (queues s)((i, l) := ts) \<and> struct s' = struct s \<and> tokreg s' = tokreg s"
proof -
  let ?p = "places s ! i"
  have ok: "place_ok ?p" using inv i by (simp add: net_inv_def)
  show ?thesis
  proof (cases "p_observer ?p")
    case None
    let ?p' = "?p\<lparr>p_tokens := (p_tokens ?p)(l := ts)\<rparr>"
    have okp: "place_ok ?p'" using None by (simp add: place_ok_def)
    have r: "report i l (int (length ts) - int (p_count ?p l)) (set_tokens i l ts s) = Ret () (set_place i ?p' s)"
      using None i by (simp add: report_def set_tokens_def Let_def)
    show ?thesis
      using r i inv okp
      by (simp add: queues_set_place struct_set_place net_inv_set_place)
  next
    case (Some ob)
    with place_ok_update [OF ok Some] obtain ob' where
      ob': "obs_inc l (int (length ts) - int (p_count ?p l)) ob = Done ob'"
      and sh: "obs_shape ob' = obs_shape ob"
      and ok': "place_ok (?p\<lparr>p_tokens := (p_tokens ?p)(l := ts), p_observer := Some ob'\<rparr>)"
      by blast
    have eq: "set_obs i ob' (set_tokens i l ts s) =
              set_place i (?p\<lparr>p_tokens := (p_tokens ?p)(l := ts), p_observer := Some ob'\<rparr>) s"
      using i by (simp add: set_obs_def set_tokens_def set_place_def Let_def)
    have r: "report i l (int (length ts) - int (p_count ?p l)) (set_tokens i l ts s) =
             Ret () (set_place i (?p\<lparr>p_tokens := (p_tokens ?p)(l := ts), p_observer := Some ob'\<rparr>) s)"
      using Some ob' i by (simp add: report_def eq [symmetric] set_tokens_def Let_def)
    show ?thesis
      using r i inv ok' Some sh by (simp add: queues_set_place struct_set_place net_inv_set_place)
  qed
qed

lemma struct_length:
  assumes "struct s' = struct s"
  shows "length (places s') = length (places s)"
proof -
  have "length (snd (struct s')) = length (snd (struct s))" using assms by simp
  then show ?thesis by (simp add: struct_def)
qed

lemma marking_queues: "marking s k = length (queues s k)"
  by (cases k) (simp add: marking_def queues_def p_count_def)

lemma put_ok:
  assumes "net_inv s" and "i < length (places s)"
  shows "\<exists>s'. put i l ts s = Ret () s' \<and> net_inv s' \<and>
           queues s' = (queues s)((i, l) := queues s (i, l) @ ts) \<and> struct s' = struct s \<and> tokreg s' = tokreg s"
proof -
  have d: "int (length ts) = int (length (p_tokens (places s ! i) l @ ts)) - int (p_count (places s ! i) l)"
    by (simp add: p_count_def)
  show ?thesis
    using update_tokens_ok [OF assms, of l "p_tokens (places s ! i) l @ ts"]
    by (simp only: put_def d) (simp add: queues_def)
qed

lemma try_take_ok:
  assumes "net_inv s" and "i < length (places s)"
  shows "if n \<le> length (queues s (i, l))
         then (\<exists>s'. try_take i l n s = Ret (Some (take n (queues s (i, l)))) s' \<and> net_inv s' \<and>
                 queues s' = (queues s)((i, l) := drop n (queues s (i, l))) \<and>
                 struct s' = struct s \<and> tokreg s' = tokreg s)
         else try_take i l n s = Ret None s"
proof (cases "n \<le> length (queues s (i, l))")
  case True
  then have d: "- int n = int (length (drop n (p_tokens (places s ! i) l))) - int (p_count (places s ! i) l)"
    by (simp add: p_count_def queues_def)
  obtain s' where s': "report i l (- int n) (set_tokens i l (drop n (p_tokens (places s ! i) l)) s) = Ret () s'"
      "net_inv s'" "queues s' = (queues s)((i, l) := drop n (queues s (i, l)))"
      "struct s' = struct s" "tokreg s' = tokreg s"
    using update_tokens_ok [OF assms, of l "drop n (p_tokens (places s ! i) l)"]
    by (simp only: d [symmetric]) (auto simp: queues_def)
  with True show ?thesis
    by (simp add: try_take_def obind_def queues_def Let_def)
next
  case False
  then show ?thesis by (simp add: try_take_def queues_def Let_def)
qed

lemma taken_mset_simps [simp]:
  "taken_mset [] = {#}"
  "taken_mset ((a, ts) # taken) = replicate_mset (length ts) (arc_place a, arc_label a) + taken_mset taken"
  by (simp_all add: taken_mset_def)

lemma arcs_mset_simps [simp]:
  "arcs_mset [] = {#}"
  "arcs_mset (a # as) = replicate_mset (weight a) (arc_place a, arc_label a) + arcs_mset as"
  by (simp_all add: arcs_mset_def)

lemma rollback_ok:
  assumes "net_inv s" and "\<forall>(a, ts) \<in> set taken. arc_place a < length (places s)"
  shows "\<exists>s'. rollback taken s = Ret () s' \<and> net_inv s' \<and>
           (\<forall>k. marking s' k = marking s k + count (taken_mset taken) k) \<and>
           struct s' = struct s \<and> tokreg s' = tokreg s"
  using assms
proof (induction taken arbitrary: s)
  case Nil
  then show ?case by simp
next
  case (Cons x taken)
  obtain a ts where x: "x = (a, ts)" by (cases x)
  from Cons.prems x have i: "arc_place a < length (places s)" by simp
  obtain s1 where s1: "put (arc_place a) (arc_label a) ts s = Ret () s1" "net_inv s1"
    "queues s1 = (queues s)((arc_place a, arc_label a) := queues s (arc_place a, arc_label a) @ ts)"
    "struct s1 = struct s" "tokreg s1 = tokreg s"
    using put_ok [OF Cons.prems(1) i] by blast
  have len: "length (places s1) = length (places s)"
    using s1(4) by (rule struct_length)
  obtain s' where s': "rollback taken s1 = Ret () s'" "net_inv s'"
    "\<forall>k. marking s' k = marking s1 k + count (taken_mset taken) k"
    "struct s' = struct s1" "tokreg s' = tokreg s1"
    using Cons.IH [OF s1(2)] Cons.prems(2) x len by auto
  have "\<forall>k. marking s1 k = marking s k + count (replicate_mset (length ts) (arc_place a, arc_label a)) k"
    using s1(3) by (simp add: marking_queues)
  with s1 s' x show ?case by (simp add: obind_def)
qed

lemma take_inputs_ok:
  assumes "net_inv s" and "\<forall>a \<in> set as. arc_place a < length (places s)"
    and "\<forall>(a, ts) \<in> set taken. arc_place a < length (places s)"
  shows "\<exists>r s'. take_inputs as taken s = Ret r s' \<and> net_inv s' \<and> struct s' = struct s \<and>
           tokreg s' = tokreg s \<and>
           (if \<forall>k. count (arcs_mset as) k \<le> marking s k
            then r \<noteq> None \<and> (\<forall>k. marking s' k = marking s k - count (arcs_mset as) k)
            else r = None \<and> (\<forall>k. marking s' k = marking s k + count (taken_mset taken) k))"
  using assms
proof (induction as arbitrary: s taken)
  case Nil
  then show ?case by simp
next
  case (Cons a as)
  let ?i = "arc_place a" and ?l = "arc_label a" and ?w = "weight a"
  have i: "?i < length (places s)" using Cons.prems(2) by simp
  show ?case
  proof (cases "?w \<le> length (queues s (?i, ?l))")
    case True
    obtain s1 where s1: "try_take ?i ?l ?w s = Ret (Some (take ?w (queues s (?i, ?l)))) s1"
      "net_inv s1" "queues s1 = (queues s)((?i, ?l) := drop ?w (queues s (?i, ?l)))"
      "struct s1 = struct s" "tokreg s1 = tokreg s"
      using try_take_ok [OF Cons.prems(1) i, of ?w ?l] True by auto
    have len: "length (places s1) = length (places s)" using s1(4) by (rule struct_length)
    have m1: "marking s1 k = (if k = (?i, ?l) then marking s k - ?w else marking s k)" for k
      using s1(3) by (simp add: marking_queues)
    have w: "?w \<le> marking s (?i, ?l)" using True by (simp add: marking_queues)
    let ?taken = "(a, take ?w (queues s (?i, ?l))) # taken"
    obtain r s' where s': "take_inputs as ?taken s1 = Ret r s'" "net_inv s'" "struct s' = struct s1"
      "tokreg s' = tokreg s1"
      "if \<forall>k. count (arcs_mset as) k \<le> marking s1 k
       then r \<noteq> None \<and> (\<forall>k. marking s' k = marking s1 k - count (arcs_mset as) k)
       else r = None \<and> (\<forall>k. marking s' k = marking s1 k + count (taken_mset ?taken) k)"
    proof -
      have as1: "\<forall>b \<in> set as. arc_place b < length (places s1)" using Cons.prems(2) len by simp
      have tk1: "\<forall>(b, ts) \<in> set ?taken. arc_place b < length (places s1)"
        using Cons.prems(3) len i by auto
      show ?thesis using Cons.IH [OF s1(2) as1 tk1] that by blast
    qed
    have step: "take_inputs (a # as) taken s = Ret r s'"
      using s1(1) s'(1) by (simp add: obind_def)
    have cond: "(\<forall>k. count (arcs_mset (a # as)) k \<le> marking s k) \<longleftrightarrow>
                (\<forall>k. count (arcs_mset as) k \<le> marking s1 k)"
    proof -
      have "count (arcs_mset (a # as)) k \<le> marking s k \<longleftrightarrow> count (arcs_mset as) k \<le> marking s1 k" for k
        using w by (cases "k = (?i, ?l)") (simp_all add: m1 le_diff_conv2 add.commute)
      then show ?thesis by blast
    qed
    have lenq: "length (take ?w (queues s (?i, ?l))) = ?w" using True by simp
    have ok: "marking s1 k - count (arcs_mset as) k = marking s k - count (arcs_mset (a # as)) k" for k
      using w by (cases "k = (?i, ?l)") (simp_all add: m1)
    have restored: "marking s1 k + count (taken_mset ?taken) k = marking s k + count (taken_mset taken) k" for k
      using w lenq by (cases "k = (?i, ?l)") (simp_all add: m1)
    show ?thesis
      using step s' cond ok restored s1(4,5) by (simp split: if_splits)
  next
    case False
    have none: "try_take ?i ?l ?w s = Ret None s"
      using try_take_ok [OF Cons.prems(1) i, of ?w ?l] False by simp
    obtain s' where s': "rollback taken s = Ret () s'" "net_inv s'"
      "\<forall>k. marking s' k = marking s k + count (taken_mset taken) k" "struct s' = struct s" "tokreg s' = tokreg s"
      using rollback_ok [OF Cons.prems(1,3)] by blast
    have step: "take_inputs (a # as) taken s = Ret None s'"
      using none s'(1) by (simp add: obind_def)
    have "\<not> count (arcs_mset (a # as)) (?i, ?l) \<le> marking s (?i, ?l)"
      using False by (simp add: marking_queues)
    then have "\<not> (\<forall>k. count (arcs_mset (a # as)) k \<le> marking s k)" by blast
    with step s' show ?thesis by auto
  qed
qed

lemma net_inv_tokreg [simp]: "net_inv (s\<lparr>tokreg := r\<rparr>) = net_inv s"
  by (simp add: net_inv_def)

lemma struct_tokreg [simp]: "struct (s\<lparr>tokreg := r\<rparr>) = struct s"
  by (simp add: struct_def)

lemma struct_clock [simp]: "struct (s\<lparr>clock := c\<rparr>) = struct s"
  by (simp add: struct_def)

lemma queues_tokreg [simp]: "queues (s\<lparr>tokreg := r\<rparr>) = queues s"
  by (simp add: queues_def)

lemma length_mint_n [simp]: "length (fst (mint_n n l r)) = n"
  by (induction n arbitrary: r) auto

lemma produce_ok:
  assumes "net_inv s" and "\<forall>a \<in> set as. arc_place a < length (places s)"
  shows "\<exists>s'. produce as s = Ret () s' \<and> net_inv s' \<and> struct s' = struct s \<and>
           (\<forall>k. marking s' k = marking s k + count (arcs_mset as) k) \<and>
           id_counter (tokreg s') = id_counter (tokreg s) + int (sum_list (map weight as))"
  using assms
proof (induction as arbitrary: s)
  case Nil
  then show ?case by simp
next
  case (Cons a as)
  let ?i = "arc_place a" and ?l = "arc_label a" and ?w = "weight a"
  obtain ts r' where m: "mint_n ?w ?l (tokreg s) = (ts, r')" by (cases "mint_n ?w ?l (tokreg s)")
  have lts: "length ts = ?w" using length_mint_n [of ?w ?l "tokreg s"] m by simp
  have cr: "id_counter r' = id_counter (tokreg s) + int ?w"
    using mint_n_counter [of ?w ?l "tokreg s"] m by simp
  let ?s0 = "s\<lparr>tokreg := r'\<rparr>"
  have i: "?i < length (places ?s0)" using Cons.prems(2) by simp
  obtain s1 where s1: "put ?i ?l ts ?s0 = Ret () s1" "net_inv s1"
    "queues s1 = (queues ?s0)((?i, ?l) := queues ?s0 (?i, ?l) @ ts)" "struct s1 = struct ?s0" "tokreg s1 = r'"
    using put_ok [of ?s0 ?i ?l ts] Cons.prems(1) i by auto
  have len: "length (places s1) = length (places s)"
    using struct_length [OF s1(4)] by simp
  obtain s' where s': "produce as s1 = Ret () s'" "net_inv s'" "struct s' = struct s1"
    "\<forall>k. marking s' k = marking s1 k + count (arcs_mset as) k"
    "id_counter (tokreg s') = id_counter (tokreg s1) + int (sum_list (map weight as))"
    using Cons.IH [OF s1(2)] Cons.prems(2) len by auto
  have m1: "marking s1 k = marking s k + count (replicate_mset ?w (?i, ?l)) k" for k
    using s1(3) lts by (simp add: marking_queues)
  have step: "produce (a # as) s = Ret () s'"
    using m s1(1) s'(1) by (simp add: obind_def)
  show ?case
    using step s' s1(4,5) m1 cr by (simp add: algebra_simps)
qed

lemma obs_save_done:
  assumes "obs_save now req ob = Done (ob', ev)"
  shows "\<not> obs_is_locked ob' \<and> obs_counters ob' = obs_counters ob \<and> obs_shape ob' = obs_shape ob"
proof (cases ob)
  case (PlainObs o1)
  with assms show ?thesis
    by (auto simp: Observer_save_def save_with_def Observer__save_def clean_records_def Let_def obs_shape_def
        split: if_splits result.splits prod.splits)
next
  case (CmpObs o1)
  with assms show ?thesis
    by (auto simp: ComparativeObserver_save_def save_with_def ComparativeObserver__save_def Let_def obs_shape_def
        split: if_splits result.splits prod.splits sum.splits)
qed

lemma save_inputs_ret:
  assumes "save_inputs req as s = Ret () s'" and "net_inv s"
    and "\<forall>a \<in> set as. arc_place a < length (places s)"
  shows "net_inv s' \<and> queues s' = queues s \<and> struct s' = struct s \<and> tokreg s' = tokreg s"
  using assms
proof (induction as arbitrary: s)
  case Nil
  then show ?case by simp
next
  case (Cons a as)
  let ?i = "arc_place a"
  have i: "?i < length (places s)" using Cons.prems(3) by simp
  show ?case
  proof (cases "p_observer (places s ! ?i)")
    case None
    with Cons show ?thesis by simp
  next
    case (Some ob)
    then obtain ob' ev where sv: "obs_save (clock s) req ob = Done (ob', ev)"
      and rest: "save_inputs req as (set_obs ?i ob' s) = Ret () s'"
      using Cons.prems(1) by (auto split: result.splits prod.splits)
    let ?p' = "(places s ! ?i)\<lparr>p_observer := Some ob'\<rparr>"
    have ok: "place_ok (places s ! ?i)" using Cons.prems(2) i by (simp add: net_inv_def)
    have ok': "place_ok ?p'"
      using ok Some obs_save_done [OF sv] by (simp add: place_ok_def p_count_def)
    have inv1: "net_inv (set_obs ?i ob' s)"
      using Cons.prems(2) ok' by (simp add: set_obs_def net_inv_set_place)
    have q1: "queues (set_obs ?i ob' s) = queues s"
      using queues_set_place_same [OF i, of ?p'] by (simp add: set_obs_def)
    have st1: "struct (set_obs ?i ob' s) = struct s"
      using struct_set_place [OF i, of ?p'] Some obs_save_done [OF sv] by (simp add: set_obs_def)
    have len: "length (places (set_obs ?i ob' s)) = length (places s)"
      by (simp add: set_obs_def)
    have "net_inv s' \<and> queues s' = queues (set_obs ?i ob' s) \<and> struct s' = struct (set_obs ?i ob' s) \<and>
          tokreg s' = tokreg (set_obs ?i ob' s)"
      using Cons.IH [OF rest inv1] Cons.prems(3) len by simp
    with q1 st1 show ?thesis by (simp add: set_obs_def)
  qed
qed

lemma abs_enabled_iff:
  "abs_enabled M t \<longleftrightarrow> (\<forall>k. count (arcs_mset (t_inputs t)) k \<le> M k)"
  by (auto simp: abs_enabled_def) (metis count_eq_zero_iff le0)

lemma count_arcs_mset_ge:
  "a \<in> set as \<Longrightarrow> weight a \<le> count (arcs_mset as) (arc_place a, arc_label a)"
  by (induction as) auto

lemma abs_enabled_enabled:
  "abs_enabled (marking s) t \<Longrightarrow> enabled t s"
  unfolding abs_enabled_iff enabled_def list_all_iff
  by (metis count_arcs_mset_ge le_trans marking_def case_prod_conv)

lemma wf_net_arcs:
  "wf_net s \<Longrightarrow> j < length (transitions s) \<Longrightarrow>
   (\<forall>a \<in> set (t_inputs (transitions s ! j)). arc_place a < length (places s)) \<and>
   (\<forall>a \<in> set (t_outputs (transitions s ! j)). arc_place a < length (places s))"
  unfolding wf_net_def by (metis Un_iff nth_mem set_append)

lemma wf_net_struct: "struct s' = struct s \<Longrightarrow> wf_net s' = wf_net s"
  unfolding wf_net_def using struct_length [of s' s]
  by (metis (no_types, lifting) fst_conv struct_def)

lemma fire_ok:
  assumes inv: "net_inv s" and wf: "wf_net s" and j: "j < length (transitions s)"
    and ret: "fire j s = Ret b s'"
  shows "(b \<longleftrightarrow> abs_enabled (marking s) (transitions s ! j)) \<and>
         marking s' = (if b then abs_fire (marking s) (transitions s ! j) else marking s) \<and>
         net_inv s' \<and> struct s' = struct s"
proof -
  let ?t = "transitions s ! j"
  have arcs: "\<forall>a \<in> set (t_inputs ?t). arc_place a < length (places s)"
    "\<forall>a \<in> set (t_outputs ?t). arc_place a < length (places s)"
    using wf_net_arcs [OF wf j] by auto
  show ?thesis
  proof (cases "enabled ?t s")
    case False
    with ret have "b = False" "s' = s" by (simp_all add: fire_def)
    with False inv show ?thesis by (auto dest: abs_enabled_enabled)
  next
    case True
    obtain s1 where s1: "save_inputs (t_name ?t) (t_inputs ?t) s = Ret () s1"
      using ret True by (cases "save_inputs (t_name ?t) (t_inputs ?t) s") (simp_all add: fire_def obind_def)
    have s1p: "net_inv s1" "queues s1 = queues s" "struct s1 = struct s" "tokreg s1 = tokreg s"
      using save_inputs_ret [OF s1 inv arcs(1)] by auto
    have m1: "marking s1 = marking s"
      using s1p(2) by (simp add: marking_queues fun_eq_iff)
    have len1: "length (places s1) = length (places s)" using struct_length [OF s1p(3)] .
    obtain r s2 where s2: "take_inputs (t_inputs ?t) [] s1 = Ret r s2" "net_inv s2" "struct s2 = struct s1"
      "if \<forall>k. count (arcs_mset (t_inputs ?t)) k \<le> marking s1 k
       then r \<noteq> None \<and> (\<forall>k. marking s2 k = marking s1 k - count (arcs_mset (t_inputs ?t)) k)
       else r = None \<and> (\<forall>k. marking s2 k = marking s1 k + count (taken_mset []) k)"
      using take_inputs_ok [OF s1p(1), of "t_inputs ?t" "[]"] arcs(1) len1 by auto
    have cond: "(\<forall>k. count (arcs_mset (t_inputs ?t)) k \<le> marking s1 k) \<longleftrightarrow> abs_enabled (marking s) ?t"
      by (simp add: abs_enabled_iff m1)
    show ?thesis
    proof (cases "abs_enabled (marking s) ?t")
      case False
      with s2(4) cond have "r = None" "\<forall>k. marking s2 k = marking s k" by (simp_all add: m1)
      with ret True s1 s2(1) have "b = False" "s' = s2" by (simp_all add: fire_def obind_def)
      with False s2 s1p \<open>\<forall>k. marking s2 k = marking s k\<close> show ?thesis by (simp add: fun_eq_iff)
    next
      case en: True
      with s2(4) cond obtain tk where r: "r = Some tk"
        and m2: "\<forall>k. marking s2 k = marking s k - count (arcs_mset (t_inputs ?t)) k"
        by (auto simp: m1)
      have len2: "length (places s2) = length (places s)"
        using struct_length [OF s2(3)] len1 by simp
      obtain s3 where s3: "produce (t_outputs ?t) s2 = Ret () s3" "net_inv s3" "struct s3 = struct s2"
        "\<forall>k. marking s3 k = marking s2 k + count (arcs_mset (t_outputs ?t)) k"
        using produce_ok [OF s2(2), of "t_outputs ?t"] arcs(2) len2 by auto
      with ret True s1 s2(1) r have "b = True" "s' = s3" by (simp_all add: fire_def obind_def)
      with en s3 m2 s2(3) s1p(3) show ?thesis by (simp add: abs_fire_def fun_eq_iff)
    qed
  qed
qed

section \<open>Lemmas: liveness, equivalence and FIFO order\<close>

lemma obs_save_cases:
  assumes "\<not> obs_is_locked ob" and "obs_nolimit ob"
  shows "(\<exists>ob' ev. obs_save now req ob = Done (ob', ev) \<and> obs_nolimit ob') \<or>
         (\<exists>e. obs_save now req ob = Failed e)"
proof (cases ob)
  case (PlainObs o1)
  with assms show ?thesis
    by (auto simp: obs_nolimit_def Observer_save_def save_with_def Observer__save_def clean_records_def
        Let_def add_record_def)
next
  case (CmpObs o1)
  with assms show ?thesis
    by (auto simp: obs_nolimit_def ComparativeObserver_save_def save_with_def ComparativeObserver__save_def
        Let_def split: sum.splits)
qed

lemma no_limits_set_obs:
  "no_limits s \<Longrightarrow> obs_nolimit ob \<Longrightarrow> no_limits (set_obs i ob s)"
  unfolding no_limits_def set_obs_def using set_update_subset_insert by fastforce

lemma save_inputs_returns:
  assumes "net_inv s" and "no_limits s" and "\<forall>a \<in> set as. arc_place a < length (places s)"
  shows "(\<exists>s'. save_inputs req as s = Ret () s' \<and> no_limits s') \<or> (\<exists>e. save_inputs req as s = Raise e)"
  using assms
proof (induction as arbitrary: s)
  case Nil
  then show ?case by simp
next
  case (Cons a as)
  let ?i = "arc_place a"
  have i: "?i < length (places s)" using Cons.prems(3) by simp
  show ?case
  proof (cases "p_observer (places s ! ?i)")
    case None
    with Cons show ?thesis by simp
  next
    case (Some ob)
    have ok: "place_ok (places s ! ?i)" using Cons.prems(1) i by (simp add: net_inv_def)
    then have free: "\<not> obs_is_locked ob" using Some by (simp add: place_ok_def)
    have mem: "places s ! ?i \<in> set (places s)" using i by (rule nth_mem)
    have nl: "obs_nolimit ob" using Cons.prems(2) mem Some unfolding no_limits_def by fastforce
    show ?thesis
    proof (cases "\<exists>e. obs_save (clock s) req ob = Failed e")
      case True
      with Some show ?thesis by auto
    next
      case False
      with obs_save_cases [OF free nl, of "clock s" req] obtain ob' ev where
        sv: "obs_save (clock s) req ob = Done (ob', ev)" and nl': "obs_nolimit ob'" by blast
      let ?s1 = "set_obs ?i ob' s"
      let ?p' = "(places s ! ?i)\<lparr>p_observer := Some ob'\<rparr>"
      have ok': "place_ok ?p'"
        using ok Some obs_save_done [OF sv] by (simp add: place_ok_def p_count_def)
      have inv1: "net_inv ?s1" using Cons.prems(1) ok' by (simp add: set_obs_def net_inv_set_place)
      have nl1: "no_limits ?s1" using no_limits_set_obs [OF Cons.prems(2) nl'] .
      have len: "\<forall>b \<in> set as. arc_place b < length (places ?s1)" using Cons.prems(3) by (simp add: set_obs_def)
      have step: "save_inputs req (a # as) s = save_inputs req as ?s1" using Some sv by simp
      show ?thesis using Cons.IH [OF inv1 nl1 len] step by simp
    qed
  qed
qed

lemma fire_returns:
  assumes inv: "net_inv s" and wf: "wf_net s" and j: "j < length (transitions s)" and nl: "no_limits s"
  shows "(\<exists>b s'. fire j s = Ret b s') \<or> (\<exists>e. fire j s = Raise e)"
proof -
  let ?t = "transitions s ! j"
  have arcs: "\<forall>a \<in> set (t_inputs ?t). arc_place a < length (places s)"
    "\<forall>a \<in> set (t_outputs ?t). arc_place a < length (places s)"
    using wf_net_arcs [OF wf j] by auto
  show ?thesis
  proof (cases "enabled ?t s")
    case False
    then show ?thesis by (auto simp: fire_def)
  next
    case True
    from save_inputs_returns [OF inv nl arcs(1), of "t_name ?t"] show ?thesis
    proof
      assume "\<exists>e. save_inputs (t_name ?t) (t_inputs ?t) s = Raise e"
      with True show ?thesis by (auto simp: fire_def obind_def)
    next
      assume "\<exists>s1. save_inputs (t_name ?t) (t_inputs ?t) s = Ret () s1 \<and> no_limits s1"
      then obtain s1 where s1: "save_inputs (t_name ?t) (t_inputs ?t) s = Ret () s1" by blast
      have s1p: "net_inv s1" "struct s1 = struct s"
        using save_inputs_ret [OF s1 inv arcs(1)] by auto
      have len1: "length (places s1) = length (places s)" using struct_length [OF s1p(2)] .
      obtain r s2 where s2: "take_inputs (t_inputs ?t) [] s1 = Ret r s2" "net_inv s2" "struct s2 = struct s1"
        using take_inputs_ok [OF s1p(1), of "t_inputs ?t" "[]"] arcs(1) len1 by auto
      show ?thesis
      proof (cases r)
        case None
        with True s1 s2(1) show ?thesis by (auto simp: fire_def obind_def)
      next
        case (Some tk)
        have len2: "length (places s2) = length (places s)"
          using struct_length [OF s2(3)] len1 by simp
        obtain s3 where "produce (t_outputs ?t) s2 = Ret () s3"
          using produce_ok [OF s2(2), of "t_outputs ?t"] arcs(2) len2 by auto
        with True s1 s2(1) Some show ?thesis by (auto simp: fire_def obind_def)
      qed
    qed
  qed
qed

lemma count_arcs_mset_distinct:
  assumes "distinct (map (\<lambda>a. (arc_place a, arc_label a)) as)"
  shows "count (arcs_mset as) k = (case find (\<lambda>a. (arc_place a, arc_label a) = k) as of
                                      None \<Rightarrow> 0 | Some a \<Rightarrow> weight a)"
  using assms
proof (induction as)
  case Nil
  then show ?case by simp
next
  case (Cons a as)
  show ?case
  proof (cases "(arc_place a, arc_label a) = k")
    case True
    with Cons.prems have "k \<notin> set (map (\<lambda>a. (arc_place a, arc_label a)) as)" by auto
    then have "find (\<lambda>a. (arc_place a, arc_label a) = k) as = None" by (auto simp: find_None_iff)
    with Cons True show ?thesis by simp
  next
    case False
    with Cons show ?thesis by simp
  qed
qed

text \<open>When no two input arcs of a transition share a (place, label), the check a transition makes before firing is exactly the enabledness of the abstract place/transition net.\<close>

theorem enabled_iff_abs_enabled:
  assumes "distinct (map (\<lambda>a. (arc_place a, arc_label a)) (t_inputs t))"
  shows "enabled t s \<longleftrightarrow> abs_enabled (marking s) t"
proof
  assume en: "enabled t s"
  have "count (arcs_mset (t_inputs t)) k \<le> marking s k" for k
  proof (cases "find (\<lambda>a. (arc_place a, arc_label a) = k) (t_inputs t)")
    case None
    then show ?thesis using count_arcs_mset_distinct [OF assms, of k] by simp
  next
    case (Some a)
    then have "a \<in> set (t_inputs t)" "(arc_place a, arc_label a) = k"
      by (auto simp: find_Some_iff)
    with en Some show ?thesis
      using count_arcs_mset_distinct [OF assms, of k]
      by (auto simp: enabled_def list_all_iff marking_def)
  qed
  then show "abs_enabled (marking s) t" by (simp add: abs_enabled_iff)
next
  assume "abs_enabled (marking s) t"
  then show "enabled t s" by (rule abs_enabled_enabled)
qed

text \<open>C4. A place is FIFO for each label: for every script of puts and takes on one queue, the tokens taken, followed by what remains, are the tokens first held followed by everything put, in order.\<close>

theorem run_ops_fifo:
  assumes "net_inv s" and "i < length (places s)"
  shows "\<exists>tk s'. run_ops i l ops s = Ret tk s' \<and> tk @ queues s' (i, l) = queues s (i, l) @ put_lists ops"
  using assms
proof (induction ops arbitrary: s)
  case Nil
  then show ?case by simp
next
  case (Cons op ops)
  show ?case
  proof (cases op)
    case (QPut ts)
    obtain s1 where s1: "put i l ts s = Ret () s1" "net_inv s1"
      "queues s1 = (queues s)((i, l) := queues s (i, l) @ ts)" "struct s1 = struct s"
      using put_ok [OF Cons.prems] by blast
    have len: "i < length (places s1)" using struct_length [OF s1(4)] Cons.prems(2) by simp
    obtain tk s' where "run_ops i l ops s1 = Ret tk s'" "tk @ queues s' (i, l) = queues s1 (i, l) @ put_lists ops"
      using Cons.IH [OF s1(2) len] by blast
    with QPut s1 show ?thesis by (simp add: obind_def)
  next
    case (QTake n)
    show ?thesis
    proof (cases "n \<le> length (queues s (i, l))")
      case True
      obtain s1 where s1: "try_take i l n s = Ret (Some (take n (queues s (i, l)))) s1" "net_inv s1"
        "queues s1 = (queues s)((i, l) := drop n (queues s (i, l)))" "struct s1 = struct s"
        using try_take_ok [OF Cons.prems, of n l] True by auto
      have len: "i < length (places s1)" using struct_length [OF s1(4)] Cons.prems(2) by simp
      obtain tk s' where "run_ops i l ops s1 = Ret tk s'" "tk @ queues s' (i, l) = queues s1 (i, l) @ put_lists ops"
        using Cons.IH [OF s1(2) len] by blast
      with QTake s1 show ?thesis by (simp add: obind_def)
    next
      case False
      then have none: "try_take i l n s = Ret None s"
        using try_take_ok [OF Cons.prems, of n l] by simp
      obtain tk s' where "run_ops i l ops s = Ret tk s'" "tk @ queues s' (i, l) = queues s (i, l) @ put_lists ops"
        using Cons.IH [OF Cons.prems] by blast
      with QTake none show ?thesis by (simp add: obind_def)
    qed
  qed
qed

section \<open>Lemmas: place turns and the parts that never change\<close>

lemma no_limits_shape:
  "no_limits s \<longleftrightarrow> (\<forall>x \<in> set (map (\<lambda>p. map_option obs_shape (p_observer p)) (places s)).
      case x of None \<Rightarrow> True | Some (c, lim) \<Rightarrow> c \<or> lim \<le> 0)"
  by (auto simp: no_limits_def obs_nolimit_def obs_shape_def split: option.splits observer_obj.splits)

lemma struct_shapes:
  "map (\<lambda>p. map_option obs_shape (p_observer p)) (places s) = map (\<lambda>(_, _, _, _, sh, _, _). sh) (snd (struct s))"
  by (simp add: struct_def)

lemma struct_kinds:
  "map p_kind (places s) = map (\<lambda>(_, _, _, k, _, _, _). k) (snd (struct s))"
  by (simp add: struct_def)

lemma no_limits_struct: "struct s' = struct s \<Longrightarrow> no_limits s' = no_limits s"
  by (simp only: no_limits_shape struct_shapes)

lemma abs_step_struct_imp:
  assumes st: "struct s' = struct s" and step: "abs_step s' M M'"
  shows "abs_step s M M'"
proof -
  have t: "transitions s' = transitions s" using st by (simp add: struct_def)
  have k: "map p_kind (places s') = map p_kind (places s)" using st by (simp only: struct_kinds)
  then have len: "length (places s') = length (places s)" by (metis length_map)
  with k have pk: "p_kind (places s' ! i) = p_kind (places s ! i)" if "i < length (places s)" for i
    by (metis nth_map that)
  from step show ?thesis
  proof cases
    case (abs_fire_step j)
    then show ?thesis using t by (simp add: abs_step.abs_fire_step)
  next
    case (abs_produce i c l)
    then show ?thesis using len pk by (simp add: abs_step.abs_produce)
  next
    case (abs_consume i pr l)
    then show ?thesis using len pk abs_step.abs_consume [of i s pr M l] by simp
  qed
qed

lemma abs_step_struct: "struct s' = struct s \<Longrightarrow> abs_step s' = abs_step s"
  by (intro ext iffI) (auto intro: abs_step_struct_imp)

lemma marking_update:
  "queues s' = (queues s)(k := ts) \<Longrightarrow> marking s' = (marking s)(k := length ts)"
  by (simp add: marking_queues fun_eq_iff)

lemma place_turn_ok:
  assumes inv: "net_inv s" and i: "i < length (places s)"
  shows "\<exists>r s'. place_turn i pr co s = Ret r s' \<and> net_inv s' \<and> struct s' = struct s \<and>
           (abs_step s)\<^sup>*\<^sup>* (marking s) (marking s')"
proof (cases "p_kind (places s ! i)")
  case PlainPlace
  then show ?thesis using inv by (simp add: place_turn_def)
next
  case (SpecialPlace hp hc)
  define st1 where "st1 = (case (if hp then pr else None) of
      None \<Rightarrow> Ret () s
    | Some l \<Rightarrow> (let (tkn, r') = mint l (tokreg s) in put i l [tkn] (s\<lparr>tokreg := r'\<rparr>)))"
  have "\<exists>s1. st1 = Ret () s1 \<and> net_inv s1 \<and> struct s1 = struct s \<and> (abs_step s)\<^sup>*\<^sup>* (marking s) (marking s1)"
  proof (cases "if hp then pr else None")
    case None
    then show ?thesis using inv by (simp add: st1_def)
  next
    case (Some l)
    then have hp: "hp" by (simp split: if_splits)
    obtain tkn r' where m: "mint l (tokreg s) = (tkn, r')" by fastforce
    obtain s1 where s1: "put i l [tkn] (s\<lparr>tokreg := r'\<rparr>) = Ret () s1" "net_inv s1"
        "queues s1 = (queues s)((i, l) := queues s (i, l) @ [tkn])" "struct s1 = struct s"
      using put_ok [of "s\<lparr>tokreg := r'\<rparr>" i l "[tkn]"] inv i by auto
    have "marking s1 = (marking s)((i, l) := Suc (marking s (i, l)))"
      using marking_update [OF s1(3)] by (simp add: marking_queues)
    then have "abs_step s (marking s) (marking s1)"
      using abs_produce [OF i, of hc "marking s" l] SpecialPlace hp by simp
    then show ?thesis using Some m s1 by (auto simp: st1_def)
  qed
  then obtain s1 where s1: "st1 = Ret () s1" "net_inv s1" "struct s1 = struct s"
      "(abs_step s)\<^sup>*\<^sup>* (marking s) (marking s1)" by blast
  have i1: "i < length (places s1)" using struct_length [OF s1(3)] i by simp
  have pt: "place_turn i pr co s =
      (case (if hc then co else None) of
         None \<Rightarrow> Ret None s1
       | Some l \<Rightarrow> obind (try_take i l 1 s1) (\<lambda>r s2. Ret (map_option hd r) s2))"
    using SpecialPlace s1(1) by (simp add: place_turn_def st1_def obind_def)
  show ?thesis
  proof (cases "if hc then co else None")
    case None
    then show ?thesis using pt s1 by simp
  next
    case (Some l)
    then have hc: "hc" by (simp split: if_splits)
    show ?thesis
    proof (cases "1 \<le> length (queues s1 (i, l))")
      case True
      obtain s2 where s2: "try_take i l 1 s1 = Ret (Some (take 1 (queues s1 (i, l)))) s2" "net_inv s2"
          "queues s2 = (queues s1)((i, l) := drop 1 (queues s1 (i, l)))" "struct s2 = struct s1"
        using try_take_ok [OF s1(2) i1, of 1 l] True by auto
      have "marking s2 = (marking s1)((i, l) := marking s1 (i, l) - 1)"
        using marking_update [OF s2(3)] by (simp add: marking_queues)
      moreover have "0 < marking s1 (i, l)" using True by (simp add: marking_queues Suc_le_eq)
      ultimately have "abs_step s (marking s1) (marking s2)"
        using abs_consume [OF i, of hp "marking s1" l] SpecialPlace hc by simp
      with s1(4) have "(abs_step s)\<^sup>*\<^sup>* (marking s) (marking s2)" by simp
      then show ?thesis using pt Some s2 s1 by (simp add: obind_def)
    next
      case False
      then have "try_take i l 1 s1 = Ret None s1" using try_take_ok [OF s1(2) i1, of 1 l] by simp
      then show ?thesis using pt Some s1 by (simp add: obind_def)
    qed
  qed
qed

section \<open>Lemmas: conservation\<close>

lemma sum_count_arcs_mset:
  assumes "\<forall>a \<in> set as. arc_place a < n"
  shows "(\<Sum>i<n. count (arcs_mset as) (i, l)) = sum_list (map weight (filter (\<lambda>a. arc_label a = l) as))"
  using assms
proof (induction as)
  case Nil
  then show ?case by (simp add: arcs_mset_def)
next
  case (Cons a as)
  have "(\<Sum>i<n. count (replicate_mset (weight a) (arc_place a, arc_label a)) (i, l)) =
        (if arc_label a = l then weight a else 0)"
    using Cons.prems by (simp add: count_replicate_mset if_distrib sum.delta' eq_commute)
  with Cons show ?case by (simp add: sum.distrib)
qed

lemma label_total_marking: "label_total s l = (\<Sum>i<length (places s). marking s (i, l))"
  by (simp add: label_total_def marking_def)

lemma abs_enabled_le:
  "abs_enabled M t \<Longrightarrow> count (arcs_mset (t_inputs t)) k \<le> M k"
  by (cases "k \<in># arcs_mset (t_inputs t)") (auto simp: abs_enabled_def not_in_iff)

text \<open>C13. A transition whose arcs of a label take and give the same number of tokens keeps the number of tokens of that label in the net (specification, section 8, conservation).\<close>

theorem fire_conserves:
  assumes inv: "net_inv s" and wf: "wf_net s" and j: "j < length (transitions s)"
    and ret: "fire j s = Ret b s'" and bal: "balanced (transitions s ! j) l"
  shows "label_total s' l = label_total s l"
proof -
  let ?t = "transitions s ! j" and ?n = "length (places s)"
  note r = fire_ok [OF inv wf j ret]
  have len: "length (places s') = ?n" using struct_length r by blast
  have arcs: "\<forall>a \<in> set (t_inputs ?t). arc_place a < ?n" "\<forall>a \<in> set (t_outputs ?t). arc_place a < ?n"
    using wf_net_arcs [OF wf j] by auto
  show ?thesis
  proof (cases b)
    case False
    with r len show ?thesis by (simp add: label_total_marking)
  next
    case True
    let ?pre = "\<lambda>i. count (arcs_mset (t_inputs ?t)) (i, l)" and ?post = "\<lambda>i. count (arcs_mset (t_outputs ?t)) (i, l)"
    have le: "?pre i \<le> marking s (i, l)" for i using r True abs_enabled_le by blast
    have e: "int (marking s' (i, l)) = int (marking s (i, l)) - int (?pre i) + int (?post i)" for i
      using r True le [of i] by (simp add: abs_fire_def of_nat_diff)
    have "int (label_total s' l) = (\<Sum>i<?n. int (marking s' (i, l)))"
      using len by (simp add: label_total_marking)
    also have "\<dots> = (\<Sum>i<?n. int (marking s (i, l)) - int (?pre i) + int (?post i))"
      using e by simp
    also have "\<dots> = int (label_total s l) - int (\<Sum>i<?n. ?pre i) + int (\<Sum>i<?n. ?post i)"
      by (simp add: label_total_marking sum.distrib sum_subtractf)
    also have "\<dots> = int (label_total s l)"
      using bal by (simp add: sum_count_arcs_mset [OF arcs(1)] sum_count_arcs_mset [OF arcs(2)] balanced_def)
    finally show ?thesis by simp
  qed
qed

section \<open>Refinement of a firing\<close>

text \<open>C2. A turn of a transition that returns implements the firing rule of the
  place/transition net: it fires exactly when the transition is enabled in the
  marking, the new marking is the abstract successor (or the same marking when
  it does not fire, so a failed firing is all-or-nothing), and the invariant
  that observers count the tokens of their places is kept.\<close>

theorem fire_refines:
  assumes "net_inv s" and "wf_net s" and "j < length (transitions s)" and "fire j s = Ret b s'"
  shows "(b \<longleftrightarrow> abs_enabled (marking s) (transitions s ! j)) \<and>
         marking s' = (if b then abs_fire (marking s) (transitions s ! j) else marking s) \<and> net_inv s'"
  using fire_ok [OF assms] by simp

end
