(* ===== verification/Orchestrator.thy ===== *)
theory Orchestrator
  imports Net
begin

text \<open>
  The place/transition registry \<open>PTRegistry\<close> of \<open>src/soyutnet/registry.py\<close>
  and the driver of \<open>src/soyutnet/__init__.py\<close>. The registry holds actors
  (indices into the net); its registration callback writes the new id, and a
  default name \<open>p<id>\<close> or \<open>t<id>\<close>, into the actor. \<open>main\<close> creates one
  task per entry of \<open>get_loops\<close> and waits for all of them with
  \<open>asyncio.gather\<close>; \<open>terminate\<close> cancels every task.

  The run is the step relation \<open>sched_step\<close> on the record \<open>sys\<close>: the net,
  the live tasks, the tasks blocked for ever on a lock, and the state of
  \<open>main\<close>. A step is one turn of a live task (the loops of \<open>_loop\<close> run
  one turn and yield), a tick of the clock, the termination, or the return
  of \<open>gather\<close> when no task is left. The environment chooses the order of the
  turns and what the producers and consumers of special places do.
\<close>

section \<open>PTRegistry\<close>

type_synonym pt_registry = "actor registry"

text \<open>\<open>get_label()\<close>, \<open>_name\<close> and \<open>_observer\<close> of a place or a transition.\<close>

definition actor_label :: "net \<Rightarrow> actor \<Rightarrow> label" where
  "actor_label s a = (case a of APlace i \<Rightarrow> p_label (places s ! i) | ATrans j \<Rightarrow> t_label (transitions s ! j))"

definition actor_name :: "net \<Rightarrow> actor \<Rightarrow> string" where
  "actor_name s a = (case a of APlace i \<Rightarrow> p_name (places s ! i) | ATrans j \<Rightarrow> t_name (transitions s ! j))"

definition actor_observer :: "net \<Rightarrow> actor \<Rightarrow> observer_obj option" where
  "actor_observer s a =
     (case a of APlace i \<Rightarrow> p_observer (places s ! i) | ATrans j \<Rightarrow> t_observer (transitions s ! j))"

definition is_special :: "net \<Rightarrow> actor \<Rightarrow> bool" where
  "is_special s a = (case a of APlace i \<Rightarrow> p_kind (places s ! i) \<noteq> PlainPlace | ATrans j \<Rightarrow> False)"

text \<open>The callback of \<open>PTRegistry.register\<close>: \<open>_id\<close>, then \<open>_name\<close> when it is empty.\<close>

definition pt_callback :: "id_t \<Rightarrow> actor \<Rightarrow> net \<Rightarrow> net" where
  "pt_callback nid a s =
     (case a of
        APlace i \<Rightarrow>
          (let p = places s ! i
           in set_place i (p\<lparr>p_id := nid, p_name := if p_name p = [] then ''p'' @ int_str nid else p_name p\<rparr>) s)
      | ATrans j \<Rightarrow>
          (let t = transitions s ! j
           in set_trans j (t\<lparr>t_id := nid, t_name := if t_name t = [] then ''t'' @ int_str nid else t_name t\<rparr>) s))"

definition PTRegistry_register :: "actor \<Rightarrow> net \<Rightarrow> pt_registry \<Rightarrow> id_t \<times> net \<times> pt_registry" where
  "PTRegistry_register a s r =
     (let (nid, _, r') = register (actor_label s) default_post_register_callback a r
      in (nid, pt_callback nid a s, r'))"

definition get_loops :: "pt_registry \<Rightarrow> actor list" where
  "get_loops r = map snd (concat (map snd (directory r)))"

text \<open>
  \<open>get_merged_records\<close>: the records of every observer, actor by actor in
  the order of \<open>entries()\<close>, each tagged with the actor's name. The
  docstring says the result is sorted by timestamp; the code does not sort.
\<close>

definition get_merged_records :: "bool \<Rightarrow> pt_registry \<Rightarrow> net \<Rightarrow> (string \<times> obs_record) list" where
  "get_merged_records ignore_special_places r s =
     concat (map (\<lambda>(_, a).
       if ignore_special_places \<and> is_special s a then []
       else (case actor_observer s a of
               None \<Rightarrow> []
             | Some ob \<Rightarrow> map (\<lambda>rc. (actor_name s a, rc)) (obs_records ob)))
       (entries None r))"

section \<open>The driver\<close>

datatype run_status = Running | Raised error | Finished | LoopStopped

record sys =
  sys_net :: net
  tasks :: "actor list"
  blocked :: "actor list"
  status :: run_status

definition main :: "pt_registry \<Rightarrow> net \<Rightarrow> sys" where
  "main r s = \<lparr>sys_net = s, tasks = get_loops r, blocked = [], status = Running\<rparr>"

text \<open>One iteration of \<open>_loop\<close>: the actor's turn.\<close>

definition turn :: "actor \<Rightarrow> label option \<Rightarrow> label option \<Rightarrow> net \<Rightarrow> unit outcome" where
  "turn a produced consumed s =
     (case a of
        ATrans j \<Rightarrow> obind (fire j s) (\<lambda>_ s'. Ret () s')
      | APlace i \<Rightarrow> obind (place_turn i produced consumed s) (\<lambda>_ s'. Ret () s'))"

text \<open>
  \<open>terminate\<close> cancels every task, \<open>main\<close>'s own included: a running
  \<open>main\<close> ends with \<open>CancelledError\<close>.
\<close>

definition terminate :: "sys \<Rightarrow> sys" where
  "terminate y =
     y\<lparr>tasks := [], blocked := [], status := (if status y = Running then Raised Cancelled else status y)\<rparr>"

text \<open>
  \<open>_add_int_handlers\<close> installs \<open>_int_handler\<close> for \<open>SIGINT\<close> and \<open>SIGTERM\<close>;
  the handler stops the event loop (\<open>loop.stop()\<close>) and cancels nothing.
  \<open>asyncio.run\<close> then fails with \<open>RuntimeError\<close> (the loop stopped before
  \<open>main\<close> completed): the status \<open>LoopStopped\<close>.
\<close>

definition handled_signals :: "string list" where
  "handled_signals = [''SIGINT'', ''SIGTERM'']"

definition int_handler :: "string \<Rightarrow> sys \<Rightarrow> sys" where
  "int_handler signame y = (if signame = ''SIGINT'' \<or> signame = ''SIGTERM'' then y\<lparr>status := LoopStopped\<rparr> else y)"

inductive sched_step :: "sys \<Rightarrow> sys \<Rightarrow> bool" where
  turn_ret: "status y = Running \<Longrightarrow> a \<in> set (tasks y) \<Longrightarrow> turn a pr co (sys_net y) = Ret () s' \<Longrightarrow>
     sched_step y (y\<lparr>sys_net := s'\<rparr>)"
| turn_raise: "status y = Running \<Longrightarrow> a \<in> set (tasks y) \<Longrightarrow> turn a pr co (sys_net y) = Raise e \<Longrightarrow>
     sched_step y (y\<lparr>status := Raised e\<rparr>)"
| turn_block: "status y = Running \<Longrightarrow> a \<in> set (tasks y) \<Longrightarrow> turn a pr co (sys_net y) = Block s' \<Longrightarrow>
     sched_step y (y\<lparr>sys_net := s', tasks := remove1 a (tasks y), blocked := a # blocked y\<rparr>)"
| tick: "status y = Running \<Longrightarrow> sched_step y (y\<lparr>sys_net := (sys_net y)\<lparr>clock := clock (sys_net y) + 1\<rparr>\<rparr>)"
| stop: "status y = Running \<Longrightarrow> sched_step y (terminate y)"
| finish: "status y = Running \<Longrightarrow> tasks y = [] \<Longrightarrow> blocked y = [] \<Longrightarrow> sched_step y (y\<lparr>status := Finished\<rparr>)"
| signal: "status y = Running \<Longrightarrow> sg \<in> set handled_signals \<Longrightarrow> sched_step y (int_handler sg y)"

text \<open>
  A run under a given schedule: the turns to take, each with what the
  environment does for a special place, and the ticks of the clock. A turn of
  a task that is not live, or any event after \<open>main\<close> has returned, is
  skipped.
\<close>

datatype event = Turn actor "label option" "label option" | Tick | Signal string

fun run_sched :: "event list \<Rightarrow> sys \<Rightarrow> sys" where
  "run_sched [] y = y"
| "run_sched (Tick # rest) y =
     (if status y \<noteq> Running then run_sched rest y
      else run_sched rest (y\<lparr>sys_net := (sys_net y)\<lparr>clock := clock (sys_net y) + 1\<rparr>\<rparr>))"
| "run_sched (Turn a pr co # rest) y =
     (if status y \<noteq> Running \<or> a \<notin> set (tasks y) then run_sched rest y
      else (case turn a pr co (sys_net y) of
              Ret _ s' \<Rightarrow> run_sched rest (y\<lparr>sys_net := s'\<rparr>)
            | Raise e \<Rightarrow> run_sched rest (y\<lparr>status := Raised e\<rparr>)
            | Block s' \<Rightarrow> run_sched rest (y\<lparr>sys_net := s', tasks := remove1 a (tasks y), blocked := a # blocked y\<rparr>)))"
| "run_sched (Signal sg # rest) y =
     (if status y \<noteq> Running \<or> sg \<notin> set handled_signals then run_sched rest y
      else run_sched rest (int_handler sg y))"

text \<open>Actors that exist in the net.\<close>

definition actor_ok :: "net \<Rightarrow> actor \<Rightarrow> bool" where
  "actor_ok s a = (case a of APlace i \<Rightarrow> i < length (places s) | ATrans j \<Rightarrow> j < length (transitions s))"

text \<open>The invariant of a run from the net \<open>s0\<close>.\<close>

definition sys_inv :: "net \<Rightarrow> sys \<Rightarrow> bool" where
  "sys_inv s0 y \<longleftrightarrow> net_inv (sys_net y) \<and> struct (sys_net y) = struct s0 \<and> blocked y = [] \<and>
     list_all (actor_ok s0) (tasks y) \<and> (abs_step s0)\<^sup>*\<^sup>* (marking s0) (marking (sys_net y))"

section \<open>Lemmas: turns\<close>

lemma net_inv_clock [simp]: "net_inv (s\<lparr>clock := c\<rparr>) = net_inv s"
  by (simp add: net_inv_def)

lemma marking_clock [simp]: "marking (s\<lparr>clock := c\<rparr>) = marking s"
  by (simp add: marking_def)

lemma turn_ret_ok:
  assumes inv: "net_inv s" and wf: "wf_net s" and a: "actor_ok s a"
    and ret: "turn a pr co s = Ret () s'"
  shows "net_inv s' \<and> struct s' = struct s \<and> (abs_step s)\<^sup>*\<^sup>* (marking s) (marking s')"
proof (cases a)
  case (ATrans j)
  then have j: "j < length (transitions s)" using a by (simp add: actor_ok_def)
  from ret ATrans obtain b where f: "fire j s = Ret b s'"
    by (cases "fire j s") (auto simp: turn_def obind_def)
  note r = fire_ok [OF inv wf j f]
  show ?thesis
  proof (cases b)
    case True
    then have "abs_step s (marking s) (marking s')"
      using r abs_fire_step [OF j, of "marking s"] by simp
    with r show ?thesis by simp
  next
    case False
    with r show ?thesis by simp
  qed
next
  case (APlace i)
  then have i: "i < length (places s)" using a by (simp add: actor_ok_def)
  obtain r s'' where pt: "place_turn i pr co s = Ret r s''" "net_inv s''" "struct s'' = struct s"
      "(abs_step s)\<^sup>*\<^sup>* (marking s) (marking s'')"
    using place_turn_ok [OF inv i, of pr co] by blast
  with ret APlace have "s'' = s'" by (simp add: turn_def obind_def)
  with pt show ?thesis by simp
qed

lemma turn_no_block:
  assumes inv: "net_inv s" and wf: "wf_net s" and nl: "no_limits s" and a: "actor_ok s a"
  shows "(\<exists>s'. turn a pr co s = Ret () s') \<or> (\<exists>e. turn a pr co s = Raise e)"
proof (cases a)
  case (ATrans j)
  then have j: "j < length (transitions s)" using a by (simp add: actor_ok_def)
  from fire_returns [OF inv wf j nl] ATrans show ?thesis
    by (auto simp: turn_def obind_def)
next
  case (APlace i)
  then have i: "i < length (places s)" using a by (simp add: actor_ok_def)
  from place_turn_ok [OF inv i, of pr co] APlace show ?thesis
    by (auto simp: turn_def obind_def)
qed

section \<open>Lemmas: registration\<close>

text \<open>C18. PTRegistry.register returns the next id, stores it as the counter, adds the actor to the loops main will run, names an unnamed place p<id> and an unnamed transition t<id>, keeps a given name, and moves no token.\<close>

theorem PTRegistry_register_ok:
  assumes a: "actor_ok s a" and reg: "PTRegistry_register a s r = (nid, s', r')"
  shows "nid = id_counter r + 1 \<and> id_counter r' = nid \<and>
         mset (get_loops r') = add_mset a (mset (get_loops r)) \<and>
         actor_name s' a = (if actor_name s a = []
                            then (case a of APlace _ \<Rightarrow> ''p'' | ATrans _ \<Rightarrow> ''t'') @ int_str nid
                            else actor_name s a) \<and>
         marking s' = marking s"
proof -
  have parts: "nid = id_counter r + 1" "s' = pt_callback nid a s"
      "directory r' = dict_append (directory r) (actor_label s a) (nid, a)" "id_counter r' = nid"
    using reg by (auto simp: PTRegistry_register_def register_parts split: prod.splits)
  have loops: "mset (get_loops r') = add_mset a (mset (get_loops r))"
    using parts(3) by (simp add: get_loops_def mset_map)
  have name: "actor_name s' a = (if actor_name s a = []
                            then (case a of APlace _ \<Rightarrow> ''p'' | ATrans _ \<Rightarrow> ''t'') @ int_str nid
                            else actor_name s a)"
    using a parts(2)
    by (cases a) (auto simp: actor_name_def actor_ok_def pt_callback_def set_trans_def Let_def)
  have mk: "marking s' = marking s"
  proof (cases a)
    case (APlace i)
    with a parts(2) show ?thesis
      by (auto simp: pt_callback_def Let_def marking_def p_count_def actor_ok_def fun_eq_iff nth_list_update)
  next
    case (ATrans j)
    with parts(2) show ?thesis
      by (simp add: pt_callback_def Let_def marking_def set_trans_def)
  qed
  show ?thesis using parts(1,4) loops name mk by simp
qed

section \<open>Lemmas: runs\<close>

lemma actor_ok_struct:
  assumes "struct s' = struct s"
  shows "actor_ok s' = actor_ok s"
proof -
  have "transitions s' = transitions s" using assms by (simp add: struct_def)
  moreover have "length (places s') = length (places s)" using struct_length [OF assms] .
  ultimately show ?thesis by (simp add: actor_ok_def fun_eq_iff split: actor.splits)
qed

lemma sched_step_inv:
  assumes step: "sched_step y y'" and inv: "sys_inv s0 y" and wf0: "wf_net s0" and nl0: "no_limits s0"
  shows "sys_inv s0 y'"
proof -
  let ?s = "sys_net y"
  have st: "struct ?s = struct s0" and ninv: "net_inv ?s" and reach: "(abs_step s0)\<^sup>*\<^sup>* (marking s0) (marking ?s)"
    and tk: "list_all (actor_ok s0) (tasks y)" and bl: "blocked y = []"
    using inv by (simp_all add: sys_inv_def)
  have wf: "wf_net ?s" using wf_net_struct [OF st] wf0 by simp
  have nl: "no_limits ?s" using no_limits_struct [OF st] nl0 by simp
  have aok: "actor_ok ?s a" if "a \<in> set (tasks y)" for a
    using tk that actor_ok_struct [OF st] by (simp add: list_all_iff)
  from step show ?thesis
  proof cases
    case (turn_ret a pr co s')
    note t = turn_ret_ok [OF ninv wf aok [OF turn_ret(3)] turn_ret(4)]
    have "(abs_step s0)\<^sup>*\<^sup>* (marking s0) (marking s')"
      using reach t abs_step_struct [OF st] by (metis rtranclp_trans)
    with t turn_ret(1) inv st show ?thesis by (simp add: sys_inv_def)
  next
    case (turn_raise a pr co e)
    with inv show ?thesis by (simp add: sys_inv_def)
  next
    case (turn_block a pr co s')
    with turn_no_block [OF ninv wf nl aok [OF turn_block(3)], of pr co] show ?thesis by simp
  next
    case tick
    with inv show ?thesis by (simp add: sys_inv_def)
  next
    case stop
    with inv show ?thesis by (simp add: sys_inv_def terminate_def)
  next
    case finish
    with inv show ?thesis by (simp add: sys_inv_def)
  next
    case (signal sg)
    with inv show ?thesis by (simp add: sys_inv_def int_handler_def)
  qed
qed

lemma sched_reach_inv:
  assumes "sched_step\<^sup>*\<^sup>* y y'" and "sys_inv s0 y" and "wf_net s0" and "no_limits s0"
  shows "sys_inv s0 y'"
  using assms by (induction rule: rtranclp_induct) (auto intro: sched_step_inv)

lemma sys_inv_main:
  "net_inv s0 \<Longrightarrow> list_all (actor_ok s0) (get_loops r) \<Longrightarrow> sys_inv s0 (main r s0)"
  by (simp add: sys_inv_def main_def)

lemma run_sched_reach: "sched_step\<^sup>*\<^sup>* y (run_sched evs y)"
proof (induction evs y rule: run_sched.induct)
  case (1 y)
  then show ?case by simp
next
  case (2 rest y)
  then show ?case using tick [of y] by (auto intro: converse_rtranclp_into_rtranclp)
next
  case (3 a pr co rest y)
  show ?case
  proof (cases "status y \<noteq> Running \<or> a \<notin> set (tasks y)")
    case True
    with 3 show ?thesis by simp
  next
    case False
    show ?thesis
    proof (cases "turn a pr co (sys_net y)")
      case (Ret u s')
      then have "sched_step y (y\<lparr>sys_net := s'\<rparr>)" using False turn_ret [of y a pr co s'] by simp
      with False Ret 3 show ?thesis by (auto intro: converse_rtranclp_into_rtranclp)
    next
      case (Raise e)
      then have "sched_step y (y\<lparr>status := Raised e\<rparr>)" using False turn_raise [of y a pr co e] by simp
      with False Raise 3 show ?thesis by (auto intro: converse_rtranclp_into_rtranclp)
    next
      case (Block s')
      let ?y = "y\<lparr>sys_net := s', tasks := remove1 a (tasks y), blocked := a # blocked y\<rparr>"
      have "sched_step y ?y" using False Block turn_block [of y a pr co s'] by simp
      with False Block 3 show ?thesis by (auto intro: converse_rtranclp_into_rtranclp)
    qed
  qed
next
  case (4 sg rest y)
  then show ?case using signal [of y sg] by (auto intro: converse_rtranclp_into_rtranclp)
qed

lemma run_then_terminate:
  "status (run_sched evs y) = Running \<Longrightarrow> sched_step\<^sup>*\<^sup>* y (terminate (run_sched evs y))"
  using run_sched_reach [of y evs] stop [of "run_sched evs y"] by simp

lemma abs_step_dead:
  assumes plain: "\<forall>i < length (places s0). p_kind (places s0 ! i) = PlainPlace"
    and dead: "\<forall>j < length (transitions s0). \<exists>k. M k < count (arcs_mset (t_inputs (transitions s0 ! j))) k"
  shows "\<not> abs_step s0 M M'"
proof
  assume "abs_step s0 M M'"
  then show False
  proof cases
    case (abs_fire_step j)
    then show False using dead abs_enabled_le [of M "transitions s0 ! j"] by (meson not_le)
  next
    case (abs_produce i c l)
    then show False using plain by simp
  next
    case (abs_consume i pr l)
    then show False using plain by simp
  qed
qed

lemma main_dead:
  assumes "net_inv s0" and "wf_net s0" and "no_limits s0" and "list_all (actor_ok s0) (get_loops r)"
    and "\<forall>i < length (places s0). p_kind (places s0 ! i) = PlainPlace"
    and "\<forall>j < length (transitions s0). \<exists>k. marking s0 k < count (arcs_mset (t_inputs (transitions s0 ! j))) k"
    and "sched_step\<^sup>*\<^sup>* (main r s0) y"
  shows "marking (sys_net y) = marking s0"
proof -
  have "(abs_step s0)\<^sup>*\<^sup>* (marking s0) (marking (sys_net y))"
    using sched_reach_inv [OF assms(7) sys_inv_main [OF assms(1,4)] assms(2,3)] by (simp add: sys_inv_def)
  then show ?thesis
    by (cases rule: converse_rtranclpE) (use abs_step_dead [OF assms(5,6)] in auto)
qed

lemma enabled_marking:
  "enabled t s \<longleftrightarrow> list_all (\<lambda>a. weight a \<le> marking s (arc_place a, arc_label a)) (t_inputs t)"
  by (simp add: enabled_def marking_def)

section \<open>Properties of runs\<close>

text \<open>C1. Every state a run of main reaches from a well-formed net without record limits refines the abstract net: its marking is reachable by firings of enabled transitions and by the producers and consumers of special places; the observers still count their places, no task is blocked, and the structure of the net is unchanged.\<close>

theorem main_refines:
  assumes "net_inv s0" and "wf_net s0" and "no_limits s0" and "list_all (actor_ok s0) (get_loops r)"
    and "sched_step\<^sup>*\<^sup>* (main r s0) y"
  shows "(abs_step s0)\<^sup>*\<^sup>* (marking s0) (marking (sys_net y)) \<and> net_inv (sys_net y) \<and>
         blocked y = [] \<and> struct (sys_net y) = struct s0"
  using sched_reach_inv [OF assms(5) sys_inv_main [OF assms(1,4)] assms(2,3)] by (simp add: sys_inv_def)

end
