(* ===== verification/RoundRobin.thy ===== *)
theory RoundRobin
  imports Orchestrator
begin

text \<open>
  The order in which \<open>asyncio\<close> runs the tasks of \<open>main\<close> when the loop delay
  is zero (\<open>LOOP_DELAY\<close> without \<open>SLOW_MOTION\<close>): every \<open>_loop\<close> runs one
  turn and yields with \<open>sleep(0)\<close>, and the ready queue is first in, first
  out, so the tasks take turns round-robin in the order \<open>main\<close> created them,
  the order of \<open>get_loops\<close>. Producers and consumers of special places are
  callbacks of the user and do nothing here.

  \<open>rr_run\<close> runs rounds until a round changes nothing; the loops of the code
  keep running after that point, but every further round is the same.
  It is a \<open>partial_function (option)\<close>: \<open>None\<close> is a run that never reaches
  such a point. Its termination is proved for nets whose transitions all
  consume more tokens than they produce; a net whose transition has two arcs
  from one place can spin for ever.
\<close>

section \<open>Rounds\<close>

definition rr_round :: "sys \<Rightarrow> sys" where
  "rr_round y = run_sched (map (\<lambda>a. Turn a None None) (tasks y)) y"

partial_function (option) rr_run :: "sys \<Rightarrow> sys option" where
  "rr_run y =
     (let y' = rr_round y in
      if status y' \<noteq> Running \<or> sys_net y' = sys_net y then Some y' else rr_run y')"

section \<open>The measure\<close>

text \<open>
  The (place, label) keys the arcs of the net mention, the tokens the net holds
  at those keys, and transitions that take more tokens than they give.
\<close>

definition arc_keys :: "net \<Rightarrow> (nat \<times> label) set" where
  "arc_keys s = (\<Union>t \<in> set (transitions s). (\<lambda>a. (arc_place a, arc_label a)) ` set (t_inputs t @ t_outputs t))"

definition mass :: "net \<Rightarrow> nat" where
  "mass s = (\<Sum>k \<in> arc_keys s. marking s k)"

definition shrinking :: "transition \<Rightarrow> bool" where
  "shrinking t \<longleftrightarrow> sum_list (map weight (t_outputs t)) < sum_list (map weight (t_inputs t))"

text \<open>The nets for which the round-robin run is proved to stop.\<close>

definition rr_net :: "net \<Rightarrow> bool" where
  "rr_net s \<longleftrightarrow> (\<forall>i < length (places s). p_kind (places s ! i) = PlainPlace) \<and>
     (\<forall>t \<in> set (transitions s). distinct (map (\<lambda>a. (arc_place a, arc_label a)) (t_inputs t)) \<and> shrinking t)"

section \<open>Lemmas: the measure\<close>

lemma finite_arc_keys [simp]: "finite (arc_keys s)"
  by (simp add: arc_keys_def)

lemma arc_keys_struct: "struct s' = struct s \<Longrightarrow> arc_keys s' = arc_keys s"
  by (simp add: arc_keys_def struct_def)

lemma sum_count_keys:
  assumes "(\<lambda>a. (arc_place a, arc_label a)) ` set as \<subseteq> K" and "finite K"
  shows "(\<Sum>k \<in> K. count (arcs_mset as) k) = sum_list (map weight as)"
  using assms
proof (induction as)
  case Nil
  then show ?case by (simp add: arcs_mset_def)
next
  case (Cons a as)
  have "(\<Sum>k \<in> K. count (replicate_mset (weight a) (arc_place a, arc_label a)) k) = weight a"
    using Cons.prems by (simp add: count_replicate_mset sum.delta)
  with Cons show ?case by (simp add: sum.distrib)
qed

lemma rr_net_struct: "struct s' = struct s \<Longrightarrow> rr_net s' = rr_net s"
proof -
  assume st: "struct s' = struct s"
  have t: "transitions s' = transitions s" using st by (simp add: struct_def)
  have k: "map p_kind (places s') = map p_kind (places s)" using st by (simp only: struct_kinds)
  then have len: "length (places s') = length (places s)" by (metis length_map)
  with k have "p_kind (places s' ! i) = p_kind (places s ! i)" if "i < length (places s)" for i
    by (metis nth_map that)
  with t len show ?thesis by (auto simp: rr_net_def)
qed

lemma fire_mass:
  assumes inv: "net_inv s" and wf: "wf_net s" and j: "j < length (transitions s)" and rr: "rr_net s"
    and ret: "fire j s = Ret b s'"
  shows "if enabled (transitions s ! j) s then mass s' < mass s else s' = s"
proof (cases "enabled (transitions s ! j) s")
  case False
  with ret show ?thesis by (simp add: fire_def)
next
  case True
  let ?t = "transitions s ! j" and ?K = "arc_keys s"
  have tin: "?t \<in> set (transitions s)" using j by simp
  with rr have d: "distinct (map (\<lambda>a. (arc_place a, arc_label a)) (t_inputs ?t))" and sh: "shrinking ?t"
    by (auto simp: rr_net_def)
  have en: "abs_enabled (marking s) ?t" using True enabled_iff_abs_enabled [OF d] by simp
  note r = fire_ok [OF inv wf j ret]
  have m: "marking s' = abs_fire (marking s) ?t" and st: "struct s' = struct s" using r en by auto
  have keys: "(\<lambda>a. (arc_place a, arc_label a)) ` set (t_inputs ?t) \<subseteq> ?K"
    "(\<lambda>a. (arc_place a, arc_label a)) ` set (t_outputs ?t) \<subseteq> ?K"
    using tin by (auto simp: arc_keys_def)
  let ?pre = "\<lambda>k. count (arcs_mset (t_inputs ?t)) k" and ?post = "\<lambda>k. count (arcs_mset (t_outputs ?t)) k"
  have le: "?pre k \<le> marking s k" for k using en by (rule abs_enabled_le)
  have e: "int (marking s' k) = int (marking s k) - int (?pre k) + int (?post k)" for k
    using m le [of k] by (simp add: abs_fire_def of_nat_diff)
  have "int (mass s') = (\<Sum>k \<in> ?K. int (marking s' k))"
    using arc_keys_struct [OF st] by (simp add: mass_def)
  also have "\<dots> = (\<Sum>k \<in> ?K. int (marking s k) - int (?pre k) + int (?post k))"
    using e by simp
  also have "\<dots> = int (mass s) - int (sum_list (map weight (t_inputs ?t))) + int (sum_list (map weight (t_outputs ?t)))"
  proof -
    have i1: "int (\<Sum>k \<in> ?K. ?pre k) = int (sum_list (map weight (t_inputs ?t)))"
      using sum_count_keys [OF keys(1)] by simp
    have i2: "int (\<Sum>k \<in> ?K. ?post k) = int (sum_list (map weight (t_outputs ?t)))"
      using sum_count_keys [OF keys(2)] by simp
    show ?thesis using i1 i2 by (simp add: sum.distrib sum_subtractf mass_def)
  qed
  finally have "mass s' < mass s" using sh by (simp add: shrinking_def)
  with True show ?thesis by simp
qed

lemma turn_mass:
  assumes inv: "net_inv s" and wf: "wf_net s" and rr: "rr_net s" and a: "actor_ok s a"
    and ret: "turn a None None s = Ret () s'"
  shows "s' = s \<or> mass s' < mass s"
proof (cases a)
  case (ATrans j)
  then have j: "j < length (transitions s)" using a by (simp add: actor_ok_def)
  from ret ATrans obtain b where "fire j s = Ret b s'"
    by (cases "fire j s") (auto simp: turn_def obind_def)
  then show ?thesis using fire_mass [OF inv wf j rr] by (auto split: if_splits)
next
  case (APlace i)
  then have "p_kind (places s ! i) = PlainPlace" using a rr by (simp add: actor_ok_def rr_net_def)
  with ret APlace show ?thesis by (simp add: turn_def place_turn_def obind_def)
qed

section \<open>Lemmas: rounds\<close>

lemma run_sched_stopped: "status y \<noteq> Running \<Longrightarrow> run_sched evs y = y"
proof (induction evs)
  case (Cons e evs)
  then show ?case by (cases e) auto
qed simp

lemma sys_inv_parts:
  assumes "sys_inv s0 y" and "wf_net s0" and "no_limits s0" and "rr_net s0"
  shows "net_inv (sys_net y) \<and> wf_net (sys_net y) \<and> no_limits (sys_net y) \<and> rr_net (sys_net y) \<and>
         (\<forall>a \<in> set (tasks y). actor_ok (sys_net y) a)"
proof -
  have st: "struct (sys_net y) = struct s0" using assms(1) by (simp add: sys_inv_def)
  then show ?thesis
    using assms wf_net_struct [OF st] no_limits_struct [OF st] rr_net_struct [OF st] actor_ok_struct [OF st]
    by (auto simp: sys_inv_def list_all_iff)
qed

lemma run_turns:
  assumes "sys_inv s0 y" and wf0: "wf_net s0" and nl0: "no_limits s0" and rr0: "rr_net s0"
    and "\<forall>e \<in> set evs. \<exists>a. e = Turn a None None"
  shows "tasks (run_sched evs y) = tasks y \<and> blocked (run_sched evs y) = blocked y \<and>
         (status (run_sched evs y) = Running \<longrightarrow> status y = Running) \<and>
         (sys_net (run_sched evs y) = sys_net y \<or> mass (sys_net (run_sched evs y)) < mass (sys_net y))"
  using assms(1,5)
proof (induction evs arbitrary: y)
  case Nil
  then show ?case by simp
next
  case (Cons e evs)
  obtain a where e: "e = Turn a None None" using Cons.prems(2) by auto
  have rest: "\<forall>e \<in> set evs. \<exists>a. e = Turn a None None" using Cons.prems(2) by simp
  show ?case
  proof (cases "status y \<noteq> Running \<or> a \<notin> set (tasks y)")
    case True
    with e Cons.IH [OF Cons.prems(1) rest] show ?thesis by auto
  next
    case False
    note p = sys_inv_parts [OF Cons.prems(1) wf0 nl0 rr0]
    have aok: "actor_ok (sys_net y) a" using p False by blast
    show ?thesis
    proof (cases "turn a None None (sys_net y)")
      case (Ret u s')
      let ?y1 = "y\<lparr>sys_net := s'\<rparr>"
      have step: "sched_step y ?y1" using False Ret turn_ret [of y a None None s'] by simp
      have inv1: "sys_inv s0 ?y1" using sched_step_inv [OF step Cons.prems(1) wf0 nl0] .
      have m: "s' = sys_net y \<or> mass s' < mass (sys_net y)"
        using turn_mass [of "sys_net y" a s'] p aok Ret by simp
      have "run_sched (e # evs) y = run_sched evs ?y1" using e False Ret by simp
      with Cons.IH [OF inv1 rest] m show ?thesis by auto
    next
      case (Raise err)
      let ?y1 = "y\<lparr>status := Raised err\<rparr>"
      have "run_sched (e # evs) y = ?y1" using e False Raise run_sched_stopped [of ?y1 evs] by simp
      then show ?thesis by simp
    next
      case (Block s')
      with turn_no_block [of "sys_net y" a None None] p aok show ?thesis by simp
    qed
  qed
qed

lemma rr_round_facts:
  assumes "sys_inv s0 y" and "wf_net s0" and "no_limits s0" and "rr_net s0"
  shows "tasks (rr_round y) = tasks y \<and> blocked (rr_round y) = blocked y \<and>
         (status (rr_round y) = Running \<longrightarrow> status y = Running) \<and>
         (sys_net (rr_round y) = sys_net y \<or> mass (sys_net (rr_round y)) < mass (sys_net y)) \<and>
         sys_inv s0 (rr_round y) \<and> sched_step\<^sup>*\<^sup>* y (rr_round y)"
proof -
  have "sched_step\<^sup>*\<^sup>* y (rr_round y)" by (simp add: rr_round_def run_sched_reach)
  moreover have "sys_inv s0 (rr_round y)" using sched_reach_inv [OF calculation assms(1-3)] .
  ultimately show ?thesis using run_turns [OF assms, of "map (\<lambda>a. Turn a None None) (tasks y)"]
    by (simp add: rr_round_def)
qed

lemma rr_run_returns:
  assumes "sys_inv s0 y" and "wf_net s0" and "no_limits s0" and "rr_net s0"
  shows "\<exists>z. rr_run y = Some z \<and> sched_step\<^sup>*\<^sup>* y z \<and> (status z \<noteq> Running \<or> rr_round z = z)"
  using assms(1)
proof (induction "mass (sys_net y)" arbitrary: y rule: less_induct)
  case less
  let ?y' = "rr_round y"
  note f = rr_round_facts [OF less.prems assms(2-4)]
  have eq: "rr_run y = (if status ?y' \<noteq> Running \<or> sys_net ?y' = sys_net y then Some ?y' else rr_run ?y')"
    by (subst rr_run.simps) (simp add: Let_def)
  show ?case
  proof (cases "status ?y' \<noteq> Running")
    case True
    with eq f show ?thesis by auto
  next
    case False
    show ?thesis
    proof (cases "sys_net ?y' = sys_net y")
      case True
      with False f have "?y' = y" by (simp add: sys.equality)
      with eq True show ?thesis by auto
    next
      case net: False
      with f have lt: "mass (sys_net ?y') < mass (sys_net y)" by simp
      obtain z where z: "rr_run ?y' = Some z" "sched_step\<^sup>*\<^sup>* ?y' z" "status z \<noteq> Running \<or> rr_round z = z"
        using less.hyps [OF lt] f by blast
      with eq False net f show ?thesis by auto
    qed
  qed
qed

lemma rr_run_diverges:
  assumes step: "\<And>n. F (Suc n) = rr_round (F n) \<and> status (F (Suc n)) = Running \<and> sys_net (F (Suc n)) \<noteq> sys_net (F n)"
  shows "rr_run (F 0) = None"
proof (rule ccontr)
  assume "rr_run (F 0) \<noteq> None"
  then obtain z where ret: "rr_run (F 0) = Some z" by blast
  have "\<forall>n. F 0 \<noteq> F n"
  proof (rule rr_run.raw_induct [where P = "\<lambda>x z. \<forall>n. x \<noteq> F n", OF _ ret])
    fix f :: "sys \<Rightarrow> sys option" and x z
    assume IH: "\<And>x z. f x = Some z \<Longrightarrow> \<forall>n. x \<noteq> F n"
      and eq: "(let y' = rr_round x in if status y' \<noteq> Running \<or> sys_net y' = sys_net x then Some y' else f y') = Some z"
    show "\<forall>n. x \<noteq> F n"
    proof
      fix n
      show "x \<noteq> F n"
      proof
        assume x: "x = F n"
        have r: "rr_round (F n) = F (Suc n)" using step [of n] by (metis (no_types))
        have st: "status (F (Suc n)) = Running" and ne: "sys_net (F (Suc n)) \<noteq> sys_net (F n)"
          using step [of n] by blast+
        from eq have "f (F (Suc n)) = Some z" unfolding x Let_def r using st ne by simp
        then show False using IH by blast
      qed
    qed
  qed
  then show False by blast
qed

text \<open>A round that leaves the net unchanged ran every turn without effect.\<close>

lemma run_turns_stable:
  assumes "sys_inv s0 y" and wf0: "wf_net s0" and nl0: "no_limits s0" and rr0: "rr_net s0"
    and "\<forall>e \<in> set evs. \<exists>a. e = Turn a None None"
    and "status (run_sched evs y) = Running" and "sys_net (run_sched evs y) = sys_net y"
  shows "\<forall>a. Turn a None None \<in> set evs \<longrightarrow> a \<in> set (tasks y) \<longrightarrow>
           turn a None None (sys_net y) = Ret () (sys_net y)"
  using assms(1,5-7)
proof (induction evs arbitrary: y)
  case Nil
  then show ?case by simp
next
  case (Cons e evs)
  obtain a where e: "e = Turn a None None" using Cons.prems(2) by auto
  have rest: "\<forall>e \<in> set evs. \<exists>a. e = Turn a None None" using Cons.prems(2) by simp
  have run: "status y = Running"
    using run_turns [OF Cons.prems(1) wf0 nl0 rr0 Cons.prems(2)] Cons.prems(3) by simp
  show ?case
  proof (cases "a \<in> set (tasks y)")
    case False
    with e run Cons.IH [OF Cons.prems(1) rest] Cons.prems(3,4) show ?thesis by auto
  next
    case True
    note p = sys_inv_parts [OF Cons.prems(1) wf0 nl0 rr0]
    have aok: "actor_ok (sys_net y) a" using p True by blast
    have ret: "turn a None None (sys_net y) = Ret () (sys_net y)"
    proof (cases "turn a None None (sys_net y)")
      case (Ret u s')
      let ?y1 = "y\<lparr>sys_net := s'\<rparr>"
      have inv1: "sys_inv s0 ?y1"
        using sched_step_inv [OF turn_ret [of y a None None s'] Cons.prems(1) wf0 nl0] run True Ret by simp
      have r: "run_sched (e # evs) y = run_sched evs ?y1" using e run True Ret by simp
      have "s' = sys_net y"
      proof (rule ccontr)
        assume ne: "s' \<noteq> sys_net y"
        then have "mass s' < mass (sys_net y)" using turn_mass [of "sys_net y" a s'] p aok Ret by simp
        moreover have "sys_net (run_sched evs ?y1) = s' \<or> mass (sys_net (run_sched evs ?y1)) < mass s'"
          using run_turns [OF inv1 wf0 nl0 rr0 rest] by simp
        ultimately show False using Cons.prems(4) r ne by auto
      qed
      with Ret show ?thesis by simp
    next
      case (Raise err)
      then have "status (run_sched (e # evs) y) \<noteq> Running"
        using e run True run_sched_stopped [of "y\<lparr>status := Raised err\<rparr>" evs] by simp
      with Cons.prems(3) show ?thesis by simp
    next
      case (Block s')
      with turn_no_block [of "sys_net y" a None None] p aok show ?thesis by simp
    qed
    have "run_sched (e # evs) y = run_sched evs y" using e run True ret by simp
    with ret e Cons.IH [OF Cons.prems(1) rest] Cons.prems(3,4) show ?thesis by auto
  qed
qed

lemma rr_stable_dead:
  assumes inv: "sys_inv s0 z" and wf0: "wf_net s0" and nl0: "no_limits s0" and rr0: "rr_net s0"
    and run: "status z = Running" and fx: "rr_round z = z" and task: "ATrans j \<in> set (tasks z)"
  shows "\<not> enabled (transitions (sys_net z) ! j) (sys_net z)"
proof
  assume en: "enabled (transitions (sys_net z) ! j) (sys_net z)"
  note p = sys_inv_parts [OF inv wf0 nl0 rr0]
  have j: "j < length (transitions (sys_net z))" using p task by (auto simp: actor_ok_def)
  have "turn (ATrans j) None None (sys_net z) = Ret () (sys_net z)"
    using run_turns_stable [OF inv wf0 nl0 rr0, of "map (\<lambda>a. Turn a None None) (tasks z)"] run fx task
    by (simp add: rr_round_def)
  then obtain b where "fire j (sys_net z) = Ret b (sys_net z)"
    by (cases "fire j (sys_net z)") (auto simp: turn_def obind_def)
  with fire_mass [OF _ _ j] p en show False by simp
qed

section \<open>Termination of the round-robin run\<close>

text \<open>C5. Under the round-robin order of asyncio, a run of main on a well-formed net
  without record limits and special places, whose transitions each take more
  tokens than they give and have no two input arcs on one (place, label),
  terminates: it reaches a state that a further round leaves unchanged, or
  main ends with an exception.\<close>

theorem rr_run_terminates:
  assumes "net_inv s0" and "wf_net s0" and "no_limits s0" and "rr_net s0"
    and "list_all (actor_ok s0) (get_loops r)"
  shows "\<exists>z. rr_run (main r s0) = Some z \<and> sched_step\<^sup>*\<^sup>* (main r s0) z \<and>
           (status z \<noteq> Running \<or> rr_round z = z)"
  using rr_run_returns [OF sys_inv_main [OF assms(1,5)] assms(2-4)] .

text \<open>C6. On the nets of the termination theorem, the round-robin run of main
  ends either with main stopped or in a dead marking: no transition that is
  still a task of main is enabled in the final net.\<close>

theorem rr_run_quiescent:
  assumes "net_inv s0" and "wf_net s0" and "no_limits s0" and "rr_net s0"
    and "list_all (actor_ok s0) (get_loops r)"
  shows "\<exists>z. rr_run (main r s0) = Some z \<and>
           (status z \<noteq> Running \<or>
            (\<forall>j. ATrans j \<in> set (tasks z) \<longrightarrow> \<not> enabled (transitions (sys_net z) ! j) (sys_net z)))"
proof -
  have i0: "sys_inv s0 (main r s0)" by (rule sys_inv_main [OF assms(1,5)])
  obtain z where z: "rr_run (main r s0) = Some z" "sched_step\<^sup>*\<^sup>* (main r s0) z"
    "status z \<noteq> Running \<or> rr_round z = z"
    using rr_run_returns [OF i0 assms(2-4)] by blast
  have iz: "sys_inv s0 z" using sched_reach_inv [OF z(2) i0 assms(2,3)] .
  show ?thesis using z rr_stable_dead [OF iz assms(2-4)] by blast
qed

end
