(* ===== verification/Graph.thy ===== *)
theory Graph
  imports Orchestrator
begin

text \<open>
  The Graphviz export of \<open>PTRegistry\<close> (\<open>_get_graphviz_node_definition\<close>
  and \<open>generate_graph\<close> in \<open>src/soyutnet/registry.py\<close>): one node line per
  registered actor, in the order of \<open>entries()\<close>, and one edge line per input
  arc of each actor, inside a cluster. The edge line of an arc is
  \<open>Arc.get_graphviz_definition\<close> of \<open>pt_common.py\<close>, which is not among the
  sources; it is modelled from the specification as a line naming both ends.
  \<open>os.linesep\<close> is the POSIX newline. The lemma here is that splitting a
  text joined with newlines gives back its lines, which the printing theory uses.
\<close>

section \<open>Text\<close>

definition dq :: string where "dq = [CHR 0x22]"

definition tab :: string where "tab = [CHR 0x09]"

definition eol :: string where "eol = [CHR 0x0A]"

definition quoted :: "string \<Rightarrow> string" where "quoted x = dq @ x @ dq"

text \<open>The attributes of a node: a circle for a place, a box for a transition.\<close>

record node_style =
  n_shape :: string
  n_color :: string
  n_fillcolor :: string
  n_height :: string
  n_width :: string
  n_fontsize :: string
  n_penwidth :: string

definition node_style :: "actor \<Rightarrow> node_style" where
  "node_style a =
     (case a of
        APlace _ \<Rightarrow> \<lparr>n_shape = ''circle'', n_color = ''#000000'', n_fillcolor = ''#dddddd'',
                     n_height = ''1'', n_width = ''1'', n_fontsize = ''20'', n_penwidth = ''3''\<rparr>
      | ATrans _ \<Rightarrow> \<lparr>n_shape = ''box'', n_color = ''#cccccc'', n_fillcolor = ''#000000'',
                     n_height = ''0.25'', n_width = ''1.25'', n_fontsize = ''20'', n_penwidth = ''3''\<rparr>)"

definition node_definition :: "net \<Rightarrow> actor \<Rightarrow> nat \<Rightarrow> string" where
  "node_definition s a t =
     (let st = node_style a; nm = actor_name s a
      in nm @ ''_'' @ nat_str t @ '' [shape='' @ quoted (n_shape st) @ '',fontsize='' @ quoted (n_fontsize st)
         @ '',style='' @ quoted ''filled'' @ '',color='' @ quoted (n_color st) @ '',fillcolor='' @ quoted (n_fillcolor st)
         @ '',label='' @ quoted [] @ '',xlabel='' @ quoted nm @ '',height='' @ quoted (n_height st)
         @ '',width='' @ quoted (n_width st) @ '',penwidth='' @ n_penwidth st @ ''];'')"

text \<open>The input arcs of an actor and the line of an arc (from the specification).\<close>

definition actor_inputs :: "net \<Rightarrow> actor \<Rightarrow> arc list" where
  "actor_inputs s a = (case a of APlace i \<Rightarrow> p_inputs (places s ! i) | ATrans j \<Rightarrow> t_inputs (transitions s ! j))"

definition arc_source :: "actor \<Rightarrow> arc \<Rightarrow> actor" where
  "arc_source dst x = (case dst of APlace _ \<Rightarrow> ATrans (arc_trans x) | ATrans _ \<Rightarrow> APlace (arc_place x))"

definition arc_definition :: "net \<Rightarrow> actor \<Rightarrow> arc \<Rightarrow> nat \<Rightarrow> string" where
  "arc_definition s dst x t =
     actor_name s (arc_source dst x) @ ''_'' @ nat_str t @ '' -> '' @ actor_name s dst @ ''_'' @ nat_str t @ '';''"

definition graph_nodes :: "pt_registry \<Rightarrow> net \<Rightarrow> string list" where
  "graph_nodes r s = map (\<lambda>(_, a). tab @ tab @ node_definition s a 0) (entries None r)"

definition graph_arcs :: "pt_registry \<Rightarrow> net \<Rightarrow> string list" where
  "graph_arcs r s =
     concat (map (\<lambda>(_, a). map (\<lambda>x. tab @ tab @ arc_definition s a x 0) (actor_inputs s a)) (entries None r))"

definition generate_graph :: "string \<Rightarrow> pt_registry \<Rightarrow> net \<Rightarrow> string" where
  "generate_graph net_name r s =
     ''digraph '' @ net_name @ '' {'' @ eol
     @ tab @ ''subgraph cluster_0 {'' @ eol
     @ tab @ tab @ ''penwidth=3;'' @ eol
     @ concat (map (\<lambda>l. l @ eol) (graph_nodes r s))
     @ concat (map (\<lambda>l. l @ eol) (graph_arcs r s))
     @ tab @ ''}'' @ eol
     @ tab @ ''clusterrank=none;'' @ eol
     @ ''}'' @ eol"

text \<open>Splitting a text at newlines, as \<open>str.splitlines\<close> does for \<open>\n\<close>.\<close>

fun split_lines_acc :: "string \<Rightarrow> string \<Rightarrow> string list" where
  "split_lines_acc cur [] = (if cur = [] then [] else [rev cur])"
| "split_lines_acc cur (c # cs) =
     (if c = CHR 0x0A then rev cur # split_lines_acc [] cs else split_lines_acc (c # cur) cs)"

definition split_lines :: "string \<Rightarrow> string list" where
  "split_lines x = split_lines_acc [] x"

section \<open>Lemmas\<close>

lemma split_lines_acc_line:
  "CHR 0x0A \<notin> set l \<Longrightarrow> split_lines_acc cur (l @ CHR 0x0A # rest) = (rev cur @ l) # split_lines_acc [] rest"
  by (induction l arbitrary: cur) auto

lemma split_lines_concat:
  "list_all (\<lambda>l. CHR 0x0A \<notin> set l) ls \<Longrightarrow> split_lines (concat (map (\<lambda>l. l @ eol) ls)) = ls"
  by (induction ls) (simp_all add: split_lines_def eol_def split_lines_acc_line)

end
