(* ===== verification/History.thy ===== *)
theory History
  imports Orchestrator
begin

text \<open>
  The observer histories along a run. An observer appends a record only in
  \<open>save\<close>, stamped with \<open>SoyutNet.time()\<close> at that moment, and otherwise
  only drops its oldest records (the hysteresis trimming of
  \<open>_clean_records\<close>); the clock never goes back. So in every state a run of
  \<open>main\<close> reaches, every observer's history is ordered by time and no record
  is later than the clock. This holds for every net, with or without record
  limits, also once some task waits forever. An invariant of an operation on
  the net is stated for all its outcomes at once with \<open>keeps\<close>.
\<close>

section \<open>Definitions\<close>

text \<open>The history of one observer is ordered by time and not later than \<open>c\<close>.\<close>

definition hist_obs :: "time \<Rightarrow> observer_obj \<Rightarrow> bool" where
  "hist_obs c ob \<longleftrightarrow> sorted (map fst (obs_records ob)) \<and> list_all (\<lambda>r. fst r \<le> c) (obs_records ob)"

definition hist_opt :: "time \<Rightarrow> observer_obj option \<Rightarrow> bool" where
  "hist_opt c obo = (case obo of None \<Rightarrow> True | Some ob \<Rightarrow> hist_obs c ob)"

text \<open>Every observer of the net, at places and at transitions.\<close>

definition hist_ok :: "net \<Rightarrow> bool" where
  "hist_ok s \<longleftrightarrow>
     list_all (\<lambda>p. hist_opt (clock s) (p_observer p)) (places s) \<and>
     list_all (\<lambda>t. hist_opt (clock s) (t_observer t)) (transitions s)"

text \<open>A property of every net an operation returns or blocks with.\<close>

definition keeps :: "(net \<Rightarrow> bool) \<Rightarrow> 'a outcome \<Rightarrow> bool" where
  "keeps P m = (case m of Ret _ s \<Rightarrow> P s | Raise _ \<Rightarrow> True | Block s \<Rightarrow> P s)"

text \<open>How a history may change in one step at time \<open>now\<close>.\<close>

definition hist_step :: "time \<Rightarrow> obs_record list \<Rightarrow> obs_record list \<Rightarrow> bool" where
  "hist_step now xs ys \<longleftrightarrow> ys = xs \<or> (\<exists>k r. fst r = now \<and> ys = drop k (xs @ [r]))"

section \<open>Lemmas: outcomes\<close>

lemma keeps_simps [simp]:
  "keeps P (Ret a s) = P s" "keeps P (Raise e) = True" "keeps P (Block s) = P s"
  by (simp_all add: keeps_def)

lemma keeps_obind:
  assumes "keeps P m" and "\<And>a s. m = Ret a s \<Longrightarrow> P s \<Longrightarrow> keeps P (f a s)"
  shows "keeps P (obind m f)"
  using assms by (cases m) (simp_all add: obind_def)

section \<open>Invariants of the composite operations\<close>

text \<open>
  A property of the net that \<open>put\<close>, \<open>try_take\<close> and \<open>save_inputs\<close> keep,
  and that a new token registry does not touch, is kept by every composite
  operation and, if the clock's tick keeps it too, along every run of
  \<open>main\<close>: the invariant is established once per elementary operation.
\<close>

lemma rollback_keeps:
  assumes put: "\<And>s i l ts. P s \<Longrightarrow> keeps P (put i l ts s)" and "P s"
  shows "keeps P (rollback taken s)"
  using assms(2) by (induction taken s rule: rollback.induct) (auto intro!: keeps_obind put)

lemma take_inputs_keeps:
  assumes put: "\<And>s i l ts. P s \<Longrightarrow> keeps P (put i l ts s)"
    and take: "\<And>s i l n. P s \<Longrightarrow> keeps P (try_take i l n s)" and "P s"
  shows "keeps P (take_inputs as taken s)"
  using assms(3)
  by (induction as taken s rule: take_inputs.induct)
    (auto intro!: keeps_obind take rollback_keeps [OF put] split: option.splits)

lemma produce_keeps:
  assumes put: "\<And>s i l ts. P s \<Longrightarrow> keeps P (put i l ts s)"
    and tok: "\<And>s r. P (s\<lparr>tokreg := r\<rparr>) = P s" and "P s"
  shows "keeps P (produce as s)"
  using assms(3) by (induction as s rule: produce.induct) (auto intro!: keeps_obind put simp: tok split: prod.splits)

lemma turn_keeps:
  assumes put: "\<And>s i l ts. P s \<Longrightarrow> keeps P (put i l ts s)"
    and take: "\<And>s i l n. P s \<Longrightarrow> keeps P (try_take i l n s)"
    and save: "\<And>s req as. P s \<Longrightarrow> keeps P (save_inputs req as s)"
    and tok: "\<And>s r. P (s\<lparr>tokreg := r\<rparr>) = P s" and "P s"
  shows "keeps P (turn a pr co s)"
proof -
  have "keeps P (fire j s)" for j
    unfolding fire_def Let_def using assms(5)
    by (auto intro!: keeps_obind save take_inputs_keeps [OF put take] produce_keeps [OF put tok]
        split: option.splits)
  moreover have "keeps P (place_turn i pr co s)" for i
    unfolding place_turn_def using assms(5)
    by (auto split: place_kind.splits option.splits prod.splits intro!: keeps_obind put take simp: tok)
  ultimately show ?thesis
    unfolding turn_def by (auto intro!: keeps_obind split: actor.splits)
qed

lemma run_keeps:
  assumes put: "\<And>s i l ts. P s \<Longrightarrow> keeps P (put i l ts s)"
    and take: "\<And>s i l n. P s \<Longrightarrow> keeps P (try_take i l n s)"
    and save: "\<And>s req as. P s \<Longrightarrow> keeps P (save_inputs req as s)"
    and tok: "\<And>s r. P (s\<lparr>tokreg := r\<rparr>) = P s"
    and tick: "\<And>s. P s \<Longrightarrow> P (s\<lparr>clock := Suc (clock s)\<rparr>)"
    and run: "sched_step\<^sup>*\<^sup>* y y'" and "P (sys_net y)"
  shows "P (sys_net y')"
  using run assms(7)
proof (induction rule: rtranclp_induct)
  case (step z z')
  from step.hyps(2) step.IH [OF step.prems] show ?case
  proof (induction rule: sched_step.induct)
    case (turn_ret y a pr co s')
    then show ?case using turn_keeps [OF put take save tok, of "sys_net y" a pr co] by simp
  next
    case (turn_block y a pr co s')
    then show ?case using turn_keeps [OF put take save tok, of "sys_net y" a pr co] by simp
  qed (simp_all add: tick terminate_def int_handler_def)
qed

section \<open>Lemmas: histories\<close>

lemma hist_step_ok:
  assumes "hist_step now xs ys" and "sorted (map fst xs)" and "list_all (\<lambda>r. fst r \<le> now) xs"
  shows "sorted (map fst ys) \<and> list_all (\<lambda>r. fst r \<le> now) ys"
proof -
  have app: "sorted (map fst (xs @ [r])) \<and> list_all (\<lambda>r. fst r \<le> now) (xs @ [r])" if "fst r = now" for r
    using assms(2,3) that by (auto simp: sorted_append list_all_iff)
  have drop: "sorted (map fst (drop k zs)) \<and> list_all P (drop k zs)"
    if "sorted (map fst zs) \<and> list_all P zs" for k zs and P :: "obs_record \<Rightarrow> bool"
    using that by (auto simp: drop_map [symmetric] sorted_wrt_drop list_all_iff dest: in_set_dropD)
  show ?thesis
    using assms(1) app drop assms(2,3) unfolding hist_step_def by blast
qed

lemma hist_opt_Suc: "hist_opt c obo \<Longrightarrow> hist_opt (Suc c) obo"
  by (auto simp: hist_opt_def hist_obs_def list_all_iff split: option.splits)

lemma save_with_records:
  assumes f: "\<And>r ob ob' ev. f r ob = Done (ob', ev) \<or> f r ob = Stuck (ob', ev) \<Longrightarrow>
                \<exists>k. records ob' = drop k (records ob @ [r])"
    and sv: "save_with f now req ob = Done (ob', ev) \<or> save_with f now req ob = Stuck (ob', ev)"
  shows "records ob' = records ob \<or>
         (\<exists>k. records ob' = drop k (records ob @ [(now, token_counters ob, if req = [] then ''n/a'' else req)]))"
proof (cases "obs_locked ob")
  case True
  with sv show ?thesis by (simp add: save_with_def)
next
  case False
  define r where "r = (now, token_counters ob, if req = [] then ''n/a'' else req)"
  have "(\<exists>o1. f r (ob\<lparr>obs_locked := True\<rparr>) = Done (o1, ev) \<and> records ob' = records o1) \<or>
        f r (ob\<lparr>obs_locked := True\<rparr>) = Stuck (ob', ev)"
    using sv False by (auto simp: save_with_def Let_def r_def split: result.splits prod.splits)
  then obtain k where "records ob' = drop k (records ob @ [r])"
    using f [of r "ob\<lparr>obs_locked := True\<rparr>"] by fastforce
  then show ?thesis by (auto simp: r_def)
qed

lemma Observer__save_drop:
  "Observer__save r ob = Done (ob', ev) \<or> Observer__save r ob = Stuck (ob', ev) \<Longrightarrow>
   \<exists>k. records ob' = drop k (records ob @ [r])"
  by (auto simp del: drop_append simp: Observer__save_def clean_records_def trim_records_def
      py_slice_from_def Let_def split: if_splits intro: exI [of _ 0])

lemma ComparativeObserver__save_drop:
  "ComparativeObserver__save r ob = Done (ob', ev) \<or> ComparativeObserver__save r ob = Stuck (ob', ev) \<Longrightarrow>
   \<exists>k. records ob' = drop k (records ob @ [r])"
  by (auto simp del: drop_append simp: ComparativeObserver__save_def Let_def
      split: if_splits sum.splits intro: exI [of _ 0])

text \<open>What \<open>save\<close> does to the history: nothing, or it appends the snapshot of the
  counters stamped \<open>now\<close> and drops some of the oldest records.\<close>

lemma obs_save_records:
  assumes "obs_save now req ob = Done (ob', ev) \<or> obs_save now req ob = Stuck (ob', ev)"
  shows "obs_records ob' = obs_records ob \<or>
         (\<exists>k req'. obs_records ob' = drop k (obs_records ob @ [(now, obs_counters ob, req')]))"
proof (cases ob)
  case (PlainObs o1)
  then obtain o1' where sv: "save_with Observer__save now req o1 = Done (o1', ev) \<or>
                             save_with Observer__save now req o1 = Stuck (o1', ev)" and ob': "ob' = PlainObs o1'"
    using assms by (auto simp: Observer_save_def split: result.splits prod.splits)
  show ?thesis
    using save_with_records [OF Observer__save_drop sv] PlainObs ob' by (auto simp del: drop_append)
next
  case (CmpObs o1)
  then obtain o1' where sv: "save_with ComparativeObserver__save now req o1 = Done (o1', ev) \<or>
                             save_with ComparativeObserver__save now req o1 = Stuck (o1', ev)"
    and ob': "ob' = CmpObs o1'"
    using assms by (auto simp: ComparativeObserver_save_def split: result.splits prod.splits)
  show ?thesis
    using save_with_records [OF ComparativeObserver__save_drop sv] CmpObs ob' by (auto simp del: drop_append)
qed

lemma obs_save_hist:
  assumes "obs_save now req ob = Done (ob', ev) \<or> obs_save now req ob = Stuck (ob', ev)"
    and "hist_obs now ob"
  shows "hist_obs now ob'"
proof -
  have "hist_step now (obs_records ob) (obs_records ob')"
    using obs_save_records [OF assms(1)] unfolding hist_step_def by fastforce
  with assms(2) show ?thesis
    using hist_step_ok by (auto simp: hist_obs_def)
qed

lemma obs_inc_records:
  "obs_inc l d ob = Done ob' \<or> obs_inc l d ob = Stuck ob' \<Longrightarrow> obs_records ob' = obs_records ob"
  by (cases ob) (auto simp: inc_token_count_def split: if_splits)

section \<open>Lemmas: operations on the net\<close>

lemma hist_ok_set_place:
  assumes "hist_ok s" and "i < length (places s) \<Longrightarrow> hist_opt (clock s) (p_observer p)"
  shows "hist_ok (set_place i p s)"
proof (cases "i < length (places s)")
  case True
  with assms show ?thesis
    by (auto simp: hist_ok_def list_all_iff dest: set_update_subset_insert [THEN subsetD])
next
  case False
  with assms(1) show ?thesis by (simp add: hist_ok_def list_update_beyond not_less)
qed

lemma hist_ok_nth:
  "hist_ok s \<Longrightarrow> i < length (places s) \<Longrightarrow> hist_opt (clock s) (p_observer (places s ! i))"
  by (simp add: hist_ok_def list_all_length)

lemma hist_ok_tokreg [simp]: "hist_ok (s\<lparr>tokreg := r\<rparr>) = hist_ok s"
  by (simp add: hist_ok_def)

lemma hist_ok_tick: "hist_ok s \<Longrightarrow> hist_ok (s\<lparr>clock := Suc (clock s)\<rparr>)"
  by (auto simp: hist_ok_def list_all_iff intro: hist_opt_Suc)

lemma set_tokens_hist: "hist_ok s \<Longrightarrow> hist_ok (set_tokens i l ts s)"
  by (simp add: set_tokens_def Let_def hist_ok_set_place hist_ok_nth)

lemma set_obs_hist:
  "hist_ok s \<Longrightarrow> (i < length (places s) \<Longrightarrow> hist_obs (clock s) ob) \<Longrightarrow> hist_ok (set_obs i ob s)"
  by (simp add: set_obs_def hist_ok_set_place hist_opt_def)

lemma report_hist:
  assumes "hist_ok s"
  shows "keeps hist_ok (report i l d s)"
proof (cases "p_observer (places s ! i)")
  case None
  then show ?thesis using assms by (simp add: report_def)
next
  case (Some ob)
  have "hist_ok (set_obs i ob' s)" if "obs_records ob' = obs_records ob" for ob'
  proof (rule set_obs_hist [OF assms])
    assume i: "i < length (places s)"
    show "hist_obs (clock s) ob'"
      using hist_ok_nth [OF assms i] Some that by (simp add: hist_opt_def hist_obs_def)
  qed
  then show ?thesis
    using Some obs_inc_records [of l d ob] by (auto simp: report_def split: result.splits)
qed

lemma put_hist: "hist_ok s \<Longrightarrow> keeps hist_ok (put i l ts s)"
  by (simp add: put_def report_hist set_tokens_hist)

lemma try_take_hist: "hist_ok s \<Longrightarrow> keeps hist_ok (try_take i l n s)"
  by (auto simp: try_take_def Let_def intro!: keeps_obind report_hist set_tokens_hist)

lemma save_inputs_hist: "hist_ok s \<Longrightarrow> keeps hist_ok (save_inputs req as s)"
proof (induction req as s rule: save_inputs.induct)
  case (2 req a as s)
  let ?i = "arc_place a"
  show ?case
  proof (cases "p_observer (places s ! ?i)")
    case None
    with 2 show ?thesis by simp
  next
    case (Some ob)
    have ob: "?i < length (places s) \<Longrightarrow> hist_obs (clock s) ob"
      using hist_ok_nth [OF "2.prems", where i = ?i] Some by (simp add: hist_opt_def)
    have step: "hist_ok (set_obs ?i ob' s)"
      if "obs_save (clock s) req ob = Done (ob', ev) \<or> obs_save (clock s) req ob = Stuck (ob', ev)" for ob' ev
      using set_obs_hist [OF "2.prems"] obs_save_hist [OF that] ob by blast
    show ?thesis
      using Some "2.IH" step
      by (auto simp: set_obs_def split: result.splits prod.splits)
  qed
qed simp

section \<open>Histories along a run\<close>

text \<open>C9. In every state a run of main reaches, from a net whose observers'
  histories are in time order, every observer's history, at every place and
  every transition, is still ordered by the time of the save that recorded
  it, and no record is later than the clock: whatever the net, with record
  limits or without, also after a task has blocked on an observer's lock.\<close>

theorem run_histories_ordered:
  assumes "sched_step\<^sup>*\<^sup>* (main r s0) y" and "hist_ok s0"
  shows "hist_ok (sys_net y)"
  using run_keeps [OF put_hist try_take_hist save_inputs_hist hist_ok_tokreg hist_ok_tick assms(1)] assms(2)
  by (simp add: main_def)

end
