(* ===== verification/Counters.thy ===== *)
theory Counters
  imports History
begin

text \<open>
  The token counters of the observers along a run, on every net: also with
  record limits, where \<open>save\<close> leaves its observer locked for good and the
  tasks that report to it wait forever. A place changes its queue first and
  then reports the signed change to its observer (\<open>inc_token_count\<close>); a
  locked observer never counts again. So in every reachable state no
  counter is negative, no saved snapshot holds a negative count, and every
  observer whose lock is free counts exactly the tokens its place holds;
  the number of places never changes. The invariant is \<open>cnt_inv\<close>, kept by
  \<open>put\<close>, \<open>try_take\<close> and \<open>save_inputs\<close>, hence by every run
  (\<open>run_keeps\<close> of theory \<open>History\<close>).
\<close>

section \<open>Definitions\<close>

definition nonneg :: "(label \<times> int) list \<Rightarrow> bool" where
  "nonneg d = list_all (\<lambda>e. 0 \<le> snd e) d"

definition cnt_obs :: "place \<Rightarrow> observer_obj \<Rightarrow> bool" where
  "cnt_obs p ob \<longleftrightarrow>
     nonneg (obs_counters ob) \<and> list_all (\<lambda>r. nonneg (fst (snd r))) (obs_records ob) \<and>
     (\<not> obs_is_locked ob \<longrightarrow> (\<forall>l. dict_count (obs_counters ob) l = int (p_count p l)))"

definition cnt_place :: "place \<Rightarrow> bool" where
  "cnt_place p = (case p_observer p of None \<Rightarrow> True | Some ob \<Rightarrow> cnt_obs p ob)"

definition cnt_inv :: "nat \<Rightarrow> net \<Rightarrow> bool" where
  "cnt_inv n s \<longleftrightarrow> length (places s) = n \<and> list_all cnt_place (places s)"

text \<open>The parts of the net no operation resizes or rewrites.\<close>

definition frame_inv :: "nat \<Rightarrow> transition list \<Rightarrow> net \<Rightarrow> bool" where
  "frame_inv n ts s \<longleftrightarrow> length (places s) = n \<and> transitions s = ts"

section \<open>Lemmas: counters and snapshots\<close>

lemma nonneg_dict_add:
  "nonneg d \<Longrightarrow> 0 \<le> dict_count d k + n \<Longrightarrow> nonneg (dict_add d k n)"
  by (induction d) (auto simp: nonneg_def dict_count_def split: if_splits)

lemma Observer__save_parts:
  "Observer__save r o1 = Stuck (o1', e1) \<Longrightarrow> obs_locked o1 \<Longrightarrow> obs_locked o1'"
  "Observer__save r o1 = Done (o1', e1) \<Longrightarrow> token_counters o1' = token_counters o1"
  "Observer__save r o1 = Stuck (o1', e1) \<Longrightarrow> token_counters o1' = token_counters o1"
  by (auto simp: Observer__save_def clean_records_def trim_records_def add_record_def Let_def split: if_splits)

lemma ComparativeObserver__save_parts:
  "ComparativeObserver__save r o1 \<noteq> Stuck x"
  "ComparativeObserver__save r o1 = Done (o1', e1) \<Longrightarrow> token_counters o1' = token_counters o1"
  by (auto simp: ComparativeObserver__save_def add_record_def Let_def split: if_splits sum.splits)

lemma obs_save_lock:
  "obs_save now req ob = Done (ob', ev) \<Longrightarrow> \<not> obs_is_locked ob"
  "obs_save now req ob = Stuck (ob', ev) \<Longrightarrow> obs_is_locked ob'"
  "obs_save now req ob = Done (ob', ev) \<or> obs_save now req ob = Stuck (ob', ev) \<Longrightarrow>
     obs_counters ob' = obs_counters ob"
  by (cases ob; auto simp: Observer_save_def ComparativeObserver_save_def save_with_def Let_def
      ComparativeObserver__save_parts(1)
      split: if_splits result.splits prod.splits
      dest: Observer__save_parts ComparativeObserver__save_parts(2))+

lemma obs_save_cnt:
  assumes sv: "obs_save now req ob = Done (ob', ev) \<or> obs_save now req ob = Stuck (ob', ev)"
    and ok: "cnt_obs p ob"
  shows "cnt_obs p ob'"
proof -
  have c: "obs_counters ob' = obs_counters ob" by (rule obs_save_lock(3) [OF sv])
  have "\<exists>req'. set (obs_records ob') \<subseteq> set (obs_records ob @ [(now, obs_counters ob, req')])"
  proof (cases "obs_records ob' = obs_records ob")
    case False
    then obtain k req' where "obs_records ob' = drop k (obs_records ob @ [(now, obs_counters ob, req')])"
      using obs_save_records [OF sv] by blast
    then show ?thesis using set_drop_subset [of k "obs_records ob @ [(now, obs_counters ob, req')]"] by auto
  qed auto
  then obtain req' where sub: "set (obs_records ob') \<subseteq> set (obs_records ob @ [(now, obs_counters ob, req')])" ..
  have r: "list_all (\<lambda>r. nonneg (fst (snd r))) (obs_records ob')"
    using sub ok by (auto simp: cnt_obs_def list_all_iff)
  have "\<not> obs_is_locked ob' \<Longrightarrow> \<not> obs_is_locked ob"
    using sv obs_save_lock(1,2) by blast
  with c r ok show ?thesis by (auto simp: cnt_obs_def)
qed

section \<open>Lemmas: operations on the net\<close>

lemma obs_inc_done:
  "obs_inc l d ob = Done ob' \<Longrightarrow>
     \<not> obs_is_locked ob \<and> \<not> obs_is_locked ob' \<and> obs_records ob' = obs_records ob \<and>
     obs_counters ob' = dict_add (obs_counters ob) l d"
  by (cases ob) (auto simp: inc_token_count_def split: if_splits result.splits)

lemma obs_inc_stuck: "obs_inc l d ob = Stuck ob' \<Longrightarrow> ob' = ob \<and> obs_is_locked ob"
  by (cases ob) (simp_all add: inc_token_count_def split: if_splits)

lemma obs_inc_never_fails: "obs_inc l d ob \<noteq> Failed e"
  by (cases ob) (simp_all add: inc_token_count_def)

lemma cnt_obs_observer [simp]: "cnt_obs (p\<lparr>p_observer := x\<rparr>) ob = cnt_obs p ob"
  by (simp add: cnt_obs_def p_count_def)

lemma cnt_inv_set_place:
  assumes "cnt_inv n s" and "i < length (places s) \<Longrightarrow> cnt_place p"
  shows "cnt_inv n (set_place i p s)"
proof (cases "i < length (places s)")
  case True
  with assms show ?thesis
    by (auto simp: cnt_inv_def list_all_iff dest: set_update_subset_insert [THEN subsetD])
next
  case False
  with assms(1) show ?thesis by (simp add: cnt_inv_def list_update_beyond not_less)
qed

lemma cnt_inv_nth: "cnt_inv n s \<Longrightarrow> i < length (places s) \<Longrightarrow> cnt_place (places s ! i)"
  by (simp add: cnt_inv_def list_all_length)

lemma cnt_inv_tokreg [simp]: "cnt_inv n (s\<lparr>tokreg := r\<rparr>) = cnt_inv n s"
  by (simp add: cnt_inv_def)

lemma cnt_inv_tick: "cnt_inv n s \<Longrightarrow> cnt_inv n (s\<lparr>clock := Suc (clock s)\<rparr>)"
  by (simp add: cnt_inv_def)

text \<open>
  A queue replaced and the change of its length reported: what \<open>put\<close> and
  \<open>try_take\<close> both do.
\<close>

lemma report_set_tokens_cnt:
  assumes inv: "cnt_inv n s"
  shows "keeps (cnt_inv n)
           (report i l (int (length ts) - int (p_count (places s ! i) l)) (set_tokens i l ts s))"
proof (cases "i < length (places s)")
  case False
  then have "set_tokens i l ts s = s" by (simp add: set_tokens_def set_place_def list_update_beyond not_less)
  moreover have "set_obs i ob s = s" for ob
    using False by (simp add: set_obs_def set_place_def list_update_beyond not_less)
  ultimately show ?thesis using inv by (auto simp: report_def split: option.splits result.splits)
next
  case True
  let ?p = "places s ! i"
  let ?p' = "?p\<lparr>p_tokens := (p_tokens ?p)(l := ts)\<rparr>"
  have s1: "set_tokens i l ts s = set_place i ?p' s" by (simp add: set_tokens_def Let_def)
  have nth: "places (set_place i ?p' s) ! i = ?p'" using True by simp
  have pc: "p_count ?p' l' = (if l' = l then length ts else p_count ?p l')" for l'
    by (simp add: p_count_def)
  have old: "cnt_place ?p" by (rule cnt_inv_nth [OF inv True])
  show ?thesis
  proof (cases "p_observer ?p")
    case None
    then show ?thesis
      using inv True by (simp add: report_def s1 nth cnt_inv_set_place cnt_place_def)
  next
    case (Some ob)
    have ok: "cnt_obs ?p ob" using old Some by (simp add: cnt_place_def)
    have set2: "cnt_inv n (set_obs i ob' (set_place i ?p' s))" if "cnt_obs ?p' ob'" for ob'
    proof -
      have "set_obs i ob' (set_place i ?p' s) = set_place i (?p'\<lparr>p_observer := Some ob'\<rparr>) s"
        using True by (simp add: set_obs_def set_place_def)
      then show ?thesis using cnt_inv_set_place [OF inv] that by (simp add: cnt_place_def)
    qed
    have stuck: "cnt_obs ?p' ob" if "obs_is_locked ob"
      using ok that by (simp add: cnt_obs_def)
    have dn: "cnt_obs ?p' ob'"
      if "obs_inc l (int (length ts) - int (p_count ?p l)) ob = Done ob'" for ob'
    proof -
      have unl: "\<not> obs_is_locked ob" and c: "obs_counters ob' =
          dict_add (obs_counters ob) l (int (length ts) - int (p_count ?p l))"
        and same: "obs_records ob' = obs_records ob" "\<not> obs_is_locked ob'"
        using obs_inc_done [OF that] by simp_all
      have eq: "dict_count (obs_counters ob) l' = int (p_count ?p l')" for l'
        using ok unl by (simp add: cnt_obs_def)
      show ?thesis
        using ok same eq by (auto simp: cnt_obs_def c pc intro!: nonneg_dict_add)
    qed
    show ?thesis
    proof (cases "obs_inc l (int (length ts) - int (p_count ?p l)) ob")
      case (Done ob')
      then show ?thesis using dn set2 Some using True by (simp add: report_def s1)
    next
      case (Failed e)
      then show ?thesis using obs_inc_never_fails by blast
    next
      case (Stuck ob')
      then have "ob' = ob \<and> obs_is_locked ob" by (rule obs_inc_stuck)
      then show ?thesis using Stuck set2 stuck Some using True by (simp add: report_def s1)
    qed
  qed
qed

lemma put_cnt: "cnt_inv n s \<Longrightarrow> keeps (cnt_inv n) (put i l ts s)"
  using report_set_tokens_cnt [of n s i l "p_tokens (places s ! i) l @ ts"]
  by (simp add: put_def p_count_def)

lemma try_take_cnt: "cnt_inv n s \<Longrightarrow> keeps (cnt_inv n) (try_take i l k s)"
  using report_set_tokens_cnt [of n s i l "drop k (p_tokens (places s ! i) l)"]
  by (auto simp: try_take_def Let_def p_count_def of_nat_diff intro!: keeps_obind)

lemma save_inputs_cnt: "cnt_inv n s \<Longrightarrow> keeps (cnt_inv n) (save_inputs req as s)"
proof (induction req as s rule: save_inputs.induct)
  case (2 req a as s)
  let ?i = "arc_place a"
  show ?case
  proof (cases "p_observer (places s ! ?i)")
    case None
    with 2 show ?thesis by simp
  next
    case (Some ob)
    have step: "cnt_inv n (set_obs ?i ob' s)"
      if sv: "obs_save (clock s) req ob = Done (ob', ev) \<or> obs_save (clock s) req ob = Stuck (ob', ev)"
      for ob' ev
    proof -
      have "cnt_place ((places s ! ?i)\<lparr>p_observer := Some ob'\<rparr>)" if "?i < length (places s)"
      proof -
        have "cnt_obs (places s ! ?i) ob" using cnt_inv_nth [OF "2.prems" that] Some by (simp add: cnt_place_def)
        then show ?thesis using obs_save_cnt [OF sv] by (simp add: cnt_place_def)
      qed
      then show ?thesis using "2.prems" by (simp add: set_obs_def cnt_inv_set_place)
    qed
    show ?thesis
      using Some "2.IH" step
      by (auto simp: set_obs_def split: result.splits prod.splits)
  qed
qed simp

lemma frame_inv_ops:
  "frame_inv n ts s \<Longrightarrow> keeps (frame_inv n ts) (put i l xs s)"
  "frame_inv n ts s \<Longrightarrow> keeps (frame_inv n ts) (try_take i l k s)"
  "frame_inv n ts s \<Longrightarrow> keeps (frame_inv n ts) (save_inputs req as s)"
  "frame_inv n ts (s\<lparr>tokreg := r\<rparr>) = frame_inv n ts s"
  "frame_inv n ts s \<Longrightarrow> frame_inv n ts (s\<lparr>clock := Suc (clock s)\<rparr>)"
proof -
  have rep: "frame_inv n ts s \<Longrightarrow> keeps (frame_inv n ts) (report i l d s)" for s i l d
    by (auto simp: report_def set_obs_def frame_inv_def split: option.splits result.splits)
  have st: "frame_inv n ts (set_tokens i l q s) = frame_inv n ts s" for s i l q
    by (simp add: set_tokens_def Let_def frame_inv_def)
  show "frame_inv n ts s \<Longrightarrow> keeps (frame_inv n ts) (put i l xs s)"
    by (simp add: put_def rep st)
  show "frame_inv n ts s \<Longrightarrow> keeps (frame_inv n ts) (try_take i l k s)"
    by (auto simp: try_take_def Let_def st intro!: keeps_obind rep)
  show "frame_inv n ts s \<Longrightarrow> keeps (frame_inv n ts) (save_inputs req as s)"
    by (induction req as s rule: save_inputs.induct)
      (auto simp: set_obs_def frame_inv_def split: option.splits result.splits prod.splits)
qed (simp_all add: frame_inv_def)

section \<open>Counters along a run\<close>

text \<open>C12. In every state a run of main reaches, on any net whose observers
  start in order: no token counter of a place's observer is negative, no
  record an observer saved holds a negative count, every observer whose
  lock is free counts exactly the tokens of each label its place holds, and
  the number of places is unchanged; also once save has left an observer
  locked for good and the tasks that report to it wait forever.\<close>

theorem run_counters_sound:
  assumes "sched_step\<^sup>*\<^sup>* (main r s0) y" and "cnt_inv (length (places s0)) s0"
  shows "cnt_inv (length (places s0)) (sys_net y)"
  using run_keeps [OF put_cnt try_take_cnt save_inputs_cnt cnt_inv_tokreg cnt_inv_tick assms(1)] assms(2)
  by (simp add: main_def)

end
