(* ===== verification/Scenarios.thy ===== *)
theory Scenarios
  imports RoundRobin Graph Counters
begin

text \<open>
  Concrete nets: the net of \<open>src/tests/n_tester.py\<close>, and small nets for the
  scenarios of the specification, built with the constructors, registered
  with \<open>PTRegistry.register\<close> and connected with \<open>connect\<close>. The general
  properties of the other theories are applied to them here (the
  witnesses), and two properties of particular nets are proved: a
  transition that no run ever enables, and a net on which the round-robin
  run never returns.
\<close>

section \<open>Construction\<close>

text \<open>The label and id of generic tokens (\<open>constants.py\<close>).\<close>

definition GENERIC_LABEL :: label where "GENERIC_LABEL = ''''"

definition GENERIC_ID :: id_t where "GENERIC_ID = 0"

definition mk_place :: "string \<Rightarrow> place_kind \<Rightarrow> observer_obj option \<Rightarrow> place" where
  "mk_place nm k ob = \<lparr>p_name = nm, p_id = -1, p_label = GENERIC_LABEL, p_kind = k, p_tokens = (\<lambda>_. []),
     p_observer = ob, p_inputs = [], p_outputs = []\<rparr>"

definition mk_trans :: "string \<Rightarrow> transition" where
  "mk_trans nm = \<lparr>t_name = nm, t_id = -1, t_label = GENERIC_LABEL, t_observer = None, t_inputs = [], t_outputs = []\<rparr>"

definition mk_net :: "place list \<Rightarrow> transition list \<Rightarrow> net" where
  "mk_net ps ts = \<lparr>places = ps, transitions = ts, tokreg = Registry_init 0, clock = 0\<rparr>"

text \<open>Registering actors in order, and connecting arcs in order.\<close>

fun register_all :: "actor list \<Rightarrow> net \<Rightarrow> pt_registry \<Rightarrow> net \<times> pt_registry" where
  "register_all [] s r = (s, r)"
| "register_all (a # as) s r = (let (_, s', r') = PTRegistry_register a s r in register_all as s' r')"

fun connect_all :: "(actor \<times> actor \<times> int) list \<Rightarrow> net \<Rightarrow> error + net" where
  "connect_all [] s = Inr s"
| "connect_all ((a, b, w) # cs) s =
     (case connect a b w GENERIC_LABEL s of Inl e \<Rightarrow> Inl e | Inr s' \<Rightarrow> connect_all cs s')"

text \<open>
  A net with its initial tokens put into its places, then registered and connected.
\<close>

definition build_net ::
  "net \<Rightarrow> (nat \<times> nat) list \<Rightarrow> actor list \<Rightarrow> (actor \<times> actor \<times> int) list \<Rightarrow> error + net \<times> pt_registry" where
  "build_net s0 init regs arcs =
     (case fold (\<lambda>(i, k) m. obind m (\<lambda>_ s. put i GENERIC_LABEL (replicate k (GENERIC_LABEL, GENERIC_ID)) s)) init (Ret () s0) of
        Ret _ s1 \<Rightarrow>
          (let (s2, r) = register_all regs s1 (Registry_init 0)
           in (case connect_all arcs s2 of Inl e \<Rightarrow> Inl e | Inr s3 \<Rightarrow> Inr (s3, r)))
      | Raise e \<Rightarrow> Inl e
      | Block _ \<Rightarrow> Inl Cancelled)"

section \<open>The net of n_tester\<close>

definition n_tester_o1 :: "nat \<Rightarrow> cmp_observer" where
  "n_tester_o1 n =
     ComparativeObserver_init [(1, map (\<lambda>i. VTokens [(GENERIC_LABEL, int i)]) (rev [n..<2 * n + 1]))] False 0 True ''''"

definition n_tester :: "nat \<Rightarrow> error + net \<times> pt_registry" where
  "n_tester n =
     build_net (mk_net [mk_place ''p1'' PlainPlace (Some (CmpObs (n_tester_o1 n))),
                    mk_place ''p2'' (SpecialPlace False True) None]
                   [mk_trans ''''])
       [(0, 2 * n)]
       [APlace 0, ATrans 0, APlace 1]
       [(APlace 0, ATrans 0, int n), (ATrans 0, APlace 1, 1), (ATrans 0, APlace 0, int n - 1)]"

definition n_tester_schedule :: "event list" where
  "n_tester_schedule =
     [Turn (ATrans 0) None None, Turn (APlace 1) None (Some GENERIC_LABEL), Turn (ATrans 0) None None,
      Turn (APlace 1) None (Some GENERIC_LABEL), Turn (ATrans 0) None None, Turn (APlace 1) None (Some GENERIC_LABEL)]"

section \<open>The scenarios of the specification\<close>

text \<open>Four generic tokens, a transition of input weight 2 and output weight 1 to a sink.\<close>

definition sink_net :: "error + net \<times> pt_registry" where
  "sink_net =
     build_net (mk_net [mk_place ''src'' PlainPlace None, mk_place ''sink'' PlainPlace None] [mk_trans ''t''])
       [(0, 4)] [APlace 0, APlace 1, ATrans 0]
       [(APlace 0, ATrans 0, 2), (ATrans 0, APlace 1, 1)]"

text \<open>Two input arcs of weights 2 and 3 from places holding 5 and 2 tokens.\<close>

definition two_inputs_net :: "error + net \<times> pt_registry" where
  "two_inputs_net =
     build_net (mk_net [mk_place ''a'' PlainPlace None, mk_place ''b'' PlainPlace None, mk_place ''c'' PlainPlace None]
                 [mk_trans ''t''])
       [(0, 5), (1, 2)] [APlace 0, APlace 1, APlace 2, ATrans 0]
       [(APlace 0, ATrans 0, 2), (APlace 1, ATrans 0, 3), (ATrans 0, APlace 2, 1)]"

text \<open>
  A transition with two input arcs of weight 2 on one observed place holding 3
  tokens: each arc alone is satisfied, the second take fails and the first is
  rolled back. \<open>dup_state\<close> is the run of main after the observer has
  recorded \<open>rs\<close>.
\<close>

definition dup_net :: "error + net \<times> pt_registry" where
  "dup_net =
     build_net (mk_net [mk_place ''p'' PlainPlace (Some (PlainObs (Observer_init 0 False ''p'')))] [mk_trans ''t''])
       [(0, 3)] [APlace 0, ATrans 0] [(APlace 0, ATrans 0, 2), (APlace 0, ATrans 0, 2)]"

definition dup_state :: "net \<Rightarrow> pt_registry \<Rightarrow> obs_record list \<Rightarrow> sys" where
  "dup_state s0 r rs =
     main r (set_obs 0 (PlainObs ((Observer_init 0 False ''p'')\<lparr>token_counters := [(GENERIC_LABEL, 3)], records := rs\<rparr>)) s0)"

lemma int_str_digits:
  "int_str 1 = ''1''" "int_str 2 = ''2''" "int_str 3 = ''3''" "int_str 4 = ''4''"
  "int_str 5 = ''5''" "int_str 6 = ''6''" "int_str 7 = ''7''" "int_str 8 = ''8''"
  by code_simp+

lemmas build_simps = build_net_def mk_net_def mk_place_def mk_trans_def GENERIC_LABEL_def GENERIC_ID_def
  obind_def put_def set_tokens_def report_def set_obs_def set_place_def set_trans_def Let_def
  PTRegistry_register_def register_parts pt_callback_def connect_def
  inc_token_count_def ComparativeObserver_init_def Observer_init_def Registry_init_def actor_label_def int_str_digits
  observer.extend_def cmp_observer.fields_def

section \<open>Evaluation of the scenarios\<close>

lemmas run_simps = main_def get_loops_def turn_def fire_def enabled_def p_count_def
  ComparativeObserver_save_def save_with_def ComparativeObserver__save_def add_record_def record_column_def
  try_take_def mint_def token_register_def place_turn_def marking_def
  get_merged_records_def entries_def actor_observer_def is_special_def actor_name_def

lemmas inv_simps = get_loops_def net_inv_def place_ok_def p_count_def wf_net_def no_limits_def
  obs_nolimit_def actor_ok_def dict_count_def

lemma n_tester_2_facts:
  "\<exists>s0 r. n_tester 2 = Inr (s0, r) \<and>
     net_inv s0 \<and> wf_net s0 \<and> no_limits s0 \<and> list_all (actor_ok s0) (get_loops r) \<and>
     0 < length (places s0) \<and> 0 < length (transitions s0) \<and>
     distinct (map (\<lambda>a. (arc_place a, arc_label a)) (t_inputs (transitions s0 ! 0))) \<and>
     balanced (transitions s0 ! 0) GENERIC_LABEL \<and> (\<exists>s1. fire 0 s0 = Ret True s1)"
  by (simp add: n_tester_def n_tester_o1_def build_simps run_simps inv_simps
      balanced_def)

lemma two_inputs_facts:
  "\<exists>s0 r. two_inputs_net = Inr (s0, r) \<and>
     net_inv s0 \<and> wf_net s0 \<and> no_limits s0 \<and> list_all (actor_ok s0) (get_loops r) \<and>
     (\<forall>i < length (places s0). p_kind (places s0 ! i) = PlainPlace) \<and>
     (\<forall>j < length (transitions s0).
        marking s0 (1, GENERIC_LABEL) < count (arcs_mset (t_inputs (transitions s0 ! j))) (1, GENERIC_LABEL)) \<and>
     \<not> list_all (\<lambda>a. weight a \<le> marking s0 (arc_place a, arc_label a)) (t_inputs (transitions s0 ! 0))"
  by (simp add: two_inputs_net_def build_simps inv_simps marking_def arcs_mset_def less_Suc_eq)

lemma dup_facts:
  "\<exists>s0 r. dup_net = Inr (s0, r) \<and> main r s0 = dup_state s0 r [] \<and>
     enabled (transitions s0 ! 0) s0 \<and> places s0 \<noteq> [] \<and>
     (\<forall>rs. rr_round (dup_state s0 r rs) =
            dup_state s0 r (rs @ [(0, [(GENERIC_LABEL, 3)], ''t''), (0, [(GENERIC_LABEL, 3)], ''t'')]))"
  by (simp add: dup_net_def dup_state_def rr_round_def build_simps run_simps Observer_save_def Observer__save_def
      clean_records_def numeral_3_eq_3 numeral_2_eq_2)

lemma sink_facts:
  "\<exists>s0 r. sink_net = Inr (s0, r) \<and> net_inv s0 \<and> wf_net s0 \<and> no_limits s0 \<and> rr_net s0 \<and>
     list_all (actor_ok s0) (get_loops r)"
  by (simp add: sink_net_def build_simps inv_simps rr_net_def shrinking_def less_Suc_eq)

lemma n_tester_2_hist:
  "\<exists>s0 r. n_tester 2 = Inr (s0, r) \<and> hist_ok s0"
  by (simp add: n_tester_def n_tester_o1_def build_simps hist_ok_def hist_opt_def hist_obs_def)

lemma n_tester_2_run_facts:
  "\<exists>s0 r. n_tester 2 = Inr (s0, r) \<and> hist_ok s0 \<and> cnt_inv (length (places s0)) s0"
  by (simp add: n_tester_def n_tester_o1_def build_simps hist_ok_def hist_opt_def hist_obs_def
      cnt_inv_def cnt_place_def cnt_obs_def nonneg_def p_count_def dict_count_def)

lemma concat_replicate_snoc: "xs @ concat (replicate n xs) = concat (replicate n xs) @ xs"
  by (induction n) auto

section \<open>Properties of the scenarios\<close>

text \<open>C23. Two input arcs of weights 2 and 3 from places holding 5 and 2 tokens: in
  every state a run of main reaches, the marking is the initial one and the
  transition is not enabled (specification, section 8, scenario 2).\<close>

theorem two_inputs_never_enabled:
  "case two_inputs_net of Inl _ \<Rightarrow> False | Inr (s0, r) \<Rightarrow>
     (\<forall>y. sched_step\<^sup>*\<^sup>* (main r s0) y \<longrightarrow>
          marking (sys_net y) = marking s0 \<and> \<not> enabled (transitions s0 ! 0) (sys_net y))"
proof -
  obtain s0 r where nt: "two_inputs_net = Inr (s0, r)"
    and f: "net_inv s0" "wf_net s0" "no_limits s0" "list_all (actor_ok s0) (get_loops r)"
    "\<forall>i < length (places s0). p_kind (places s0 ! i) = PlainPlace"
    "\<forall>j < length (transitions s0).
        marking s0 (1, GENERIC_LABEL) < count (arcs_mset (t_inputs (transitions s0 ! j))) (1, GENERIC_LABEL)"
    "\<not> list_all (\<lambda>a. weight a \<le> marking s0 (arc_place a, arc_label a)) (t_inputs (transitions s0 ! 0))"
    using two_inputs_facts by blast
  have dead: "\<forall>j < length (transitions s0). \<exists>k. marking s0 k < count (arcs_mset (t_inputs (transitions s0 ! j))) k"
    using f(6) by blast
  have "marking (sys_net y) = marking s0 \<and> \<not> enabled (transitions s0 ! 0) (sys_net y)"
    if "sched_step\<^sup>*\<^sup>* (main r s0) y" for y
  proof -
    have m: "marking (sys_net y) = marking s0" using main_dead [OF f(1-5) dead that] .
    then show ?thesis using f(7) by (simp add: enabled_marking)
  qed
  then show ?thesis unfolding nt by simp
qed

text \<open>C7. The round-robin run does not always stop: a transition with two input arcs
  of weight 2 on one observed place holding 3 tokens passes the check of each
  arc, takes 2 tokens, fails to take the next 2 and rolls back, every round,
  while the place's observer records two snapshots per round; no round ever
  leaves the net unchanged, so rr_run never returns.\<close>

theorem dup_livelock:
  "\<exists>s0 r. dup_net = Inr (s0, r) \<and> enabled (transitions s0 ! 0) s0 \<and> rr_run (main r s0) = None"
proof -
  let ?xs = "[(0, [(GENERIC_LABEL, 3)], ''t''), (0, [(GENERIC_LABEL, 3)], ''t'')] :: obs_record list"
  obtain s0 r where nt: "dup_net = Inr (s0, r)" and m: "main r s0 = dup_state s0 r []"
    and en: "enabled (transitions s0 ! 0) s0" and ne: "places s0 \<noteq> []"
    and rd: "\<And>rs. rr_round (dup_state s0 r rs) = dup_state s0 r (rs @ ?xs)"
    using dup_facts by blast
  define F where "F n = dup_state s0 r (concat (replicate n ?xs))" for n
  have recs: "obs_records (the (p_observer (places (sys_net (dup_state s0 r rs)) ! 0))) = rs" for rs
    using ne by (simp add: dup_state_def main_def set_obs_def set_place_def)
  have step: "F (Suc n) = rr_round (F n) \<and> status (F (Suc n)) = Running \<and> sys_net (F (Suc n)) \<noteq> sys_net (F n)" for n
  proof (intro conjI)
    show "F (Suc n) = rr_round (F n)" by (simp add: F_def rd concat_replicate_snoc)
    show "status (F (Suc n)) = Running" by (simp add: F_def dup_state_def main_def)
    show "sys_net (F (Suc n)) \<noteq> sys_net (F n)"
    proof
      assume "sys_net (F (Suc n)) = sys_net (F n)"
      then have "concat (replicate (Suc n) ?xs) = concat (replicate n ?xs)"
        using recs [of "concat (replicate (Suc n) ?xs)"] recs [of "concat (replicate n ?xs)"]
        by (metis F_def)
      then have "length (concat (replicate (Suc n) ?xs)) = length (concat (replicate n ?xs))" by simp
      then show False by simp
    qed
  qed
  have "rr_run (F 0) = None" by (rule rr_run_diverges) (rule step)
  then have "rr_run (main r s0) = None" by (simp add: F_def m)
  with nt en show ?thesis by blast
qed

section \<open>Witnesses\<close>

theorem main_refines_witness:
  "\<exists>s0 r. n_tester 2 = Inr (s0, r) \<and>
     net_inv s0 \<and> wf_net s0 \<and> no_limits s0 \<and> list_all (actor_ok s0) (get_loops r) \<and>
     sched_step\<^sup>*\<^sup>* (main r s0) (run_sched n_tester_schedule (main r s0)) \<and>
     (abs_step s0)\<^sup>*\<^sup>* (marking s0) (marking (sys_net (run_sched n_tester_schedule (main r s0)))) \<and>
     net_inv (sys_net (run_sched n_tester_schedule (main r s0))) \<and>
     blocked (run_sched n_tester_schedule (main r s0)) = [] \<and>
     struct (sys_net (run_sched n_tester_schedule (main r s0))) = struct s0"
proof -
  obtain s0 r where nt: "n_tester 2 = Inr (s0, r)" and f: "net_inv s0" "wf_net s0" "no_limits s0"
    "list_all (actor_ok s0) (get_loops r)"
    using n_tester_2_facts by blast
  have reach: "sched_step\<^sup>*\<^sup>* (main r s0) (run_sched n_tester_schedule (main r s0))" by (rule run_sched_reach)
  show ?thesis using nt f reach main_refines [OF f reach] by blast
qed

theorem fire_refines_witness:
  "\<exists>s0 r s1. n_tester 2 = Inr (s0, r) \<and> net_inv s0 \<and> wf_net s0 \<and> 0 < length (transitions s0) \<and>
     fire 0 s0 = Ret True s1 \<and> abs_enabled (marking s0) (transitions s0 ! 0) \<and>
     marking s1 = abs_fire (marking s0) (transitions s0 ! 0) \<and> net_inv s1"
proof -
  obtain s0 r s1 where nt: "n_tester 2 = Inr (s0, r)" and f: "net_inv s0" "wf_net s0" "0 < length (transitions s0)"
    and fi: "fire 0 s0 = Ret True s1"
    using n_tester_2_facts by blast
  show ?thesis using nt f fi fire_refines [OF f fi] by auto
qed

theorem fire_conserves_witness:
  "\<exists>s0 r s1. n_tester 2 = Inr (s0, r) \<and> net_inv s0 \<and> wf_net s0 \<and> 0 < length (transitions s0) \<and>
     fire 0 s0 = Ret True s1 \<and> balanced (transitions s0 ! 0) GENERIC_LABEL \<and>
     label_total s1 GENERIC_LABEL = label_total s0 GENERIC_LABEL"
proof -
  obtain s0 r s1 where nt: "n_tester 2 = Inr (s0, r)" and f: "net_inv s0" "wf_net s0" "0 < length (transitions s0)"
    and fi: "fire 0 s0 = Ret True s1" and b: "balanced (transitions s0 ! 0) GENERIC_LABEL"
    using n_tester_2_facts by blast
  show ?thesis using nt f fi b fire_conserves [OF f fi b] by blast
qed

theorem run_ops_fifo_witness:
  "\<exists>s0 r tk s'. n_tester 2 = Inr (s0, r) \<and> net_inv s0 \<and> 0 < length (places s0) \<and>
     run_ops 0 GENERIC_LABEL [QTake 3, QPut [(GENERIC_LABEL, 7)], QTake 2] s0 = Ret tk s' \<and>
     tk @ queues s' (0, GENERIC_LABEL) = queues s0 (0, GENERIC_LABEL) @ [(GENERIC_LABEL, 7)]"
proof -
  obtain s0 r where nt: "n_tester 2 = Inr (s0, r)" and f: "net_inv s0" "0 < length (places s0)"
    using n_tester_2_facts by blast
  show ?thesis
    using nt f run_ops_fifo [OF f, of GENERIC_LABEL "[QTake 3, QPut [(GENERIC_LABEL, 7)], QTake 2]"] by auto
qed

theorem PTRegistry_register_ok_witness:
  "actor_ok (mk_net [mk_place [] PlainPlace None] []) (APlace 0) \<and>
   PTRegistry_register (APlace 0) (mk_net [mk_place [] PlainPlace None] []) (Registry_init 0) =
     (fst (PTRegistry_register (APlace 0) (mk_net [mk_place [] PlainPlace None] []) (Registry_init 0)),
      fst (snd (PTRegistry_register (APlace 0) (mk_net [mk_place [] PlainPlace None] []) (Registry_init 0))),
      snd (snd (PTRegistry_register (APlace 0) (mk_net [mk_place [] PlainPlace None] []) (Registry_init 0)))) \<and>
   actor_name (fst (snd (PTRegistry_register (APlace 0) (mk_net [mk_place [] PlainPlace None] []) (Registry_init 0))))
     (APlace 0) = ''p1''"
proof -
  let ?s = "mk_net [mk_place [] PlainPlace None] []" and ?r = "Registry_init 0 :: pt_registry"
  obtain nid s' r' where reg: "PTRegistry_register (APlace 0) ?s ?r = (nid, s', r')" by (cases "PTRegistry_register (APlace 0) ?s ?r") auto
  have ok: "actor_ok ?s (APlace 0)" by (simp add: actor_ok_def mk_net_def)
  have n: "actor_name ?s (APlace 0) = []" by (simp add: actor_name_def mk_net_def mk_place_def)
  from PTRegistry_register_ok [OF ok reg] n have "nid = 1" "actor_name s' (APlace 0) = ''p'' @ int_str nid"
    by (simp_all add: Registry_init_def)
  with ok reg show ?thesis by (simp add: int_str_digits)
qed

theorem two_inputs_never_enabled_witness:
  "\<exists>s0 r. two_inputs_net = Inr (s0, r) \<and> sched_step\<^sup>*\<^sup>* (main r s0) (main r s0) \<and>
     marking (sys_net (main r s0)) = marking s0 \<and> \<not> enabled (transitions s0 ! 0) (sys_net (main r s0))"
proof -
  obtain s0 r where nt: "two_inputs_net = Inr (s0, r)" using two_inputs_facts by blast
  have reach: "sched_step\<^sup>*\<^sup>* (main r s0) (main r s0)" by simp
  have "marking (sys_net (main r s0)) = marking s0 \<and> \<not> enabled (transitions s0 ! 0) (sys_net (main r s0))"
    using two_inputs_never_enabled reach unfolding nt by simp
  with nt reach show ?thesis by blast
qed

theorem rr_run_terminates_witness:
  "\<exists>s0 r z. sink_net = Inr (s0, r) \<and> net_inv s0 \<and> wf_net s0 \<and> no_limits s0 \<and> rr_net s0 \<and>
     list_all (actor_ok s0) (get_loops r) \<and> rr_run (main r s0) = Some z \<and> sched_step\<^sup>*\<^sup>* (main r s0) z \<and>
     (status z \<noteq> Running \<or> rr_round z = z)"
proof -
  obtain s0 r where nt: "sink_net = Inr (s0, r)" and f: "net_inv s0" "wf_net s0" "no_limits s0" "rr_net s0"
    "list_all (actor_ok s0) (get_loops r)"
    using sink_facts by blast
  show ?thesis using nt f rr_run_terminates [OF f] by blast
qed

theorem run_histories_ordered_witness:
  "\<exists>s0 r. n_tester 2 = Inr (s0, r) \<and> hist_ok s0 \<and>
     sched_step\<^sup>*\<^sup>* (main r s0) (run_sched n_tester_schedule (main r s0)) \<and>
     hist_ok (sys_net (run_sched n_tester_schedule (main r s0)))"
proof -
  obtain s0 r where nt: "n_tester 2 = Inr (s0, r)" and h: "hist_ok s0"
    using n_tester_2_hist by blast
  have reach: "sched_step\<^sup>*\<^sup>* (main r s0) (run_sched n_tester_schedule (main r s0))" by (rule run_sched_reach)
  show ?thesis using nt h reach run_histories_ordered [OF reach h] by blast
qed

theorem run_counters_sound_witness:
  "\<exists>s0 r. n_tester 2 = Inr (s0, r) \<and> cnt_inv (length (places s0)) s0 \<and>
     sched_step\<^sup>*\<^sup>* (main r s0) (run_sched n_tester_schedule (main r s0)) \<and>
     cnt_inv (length (places s0)) (sys_net (run_sched n_tester_schedule (main r s0)))"
proof -
  obtain s0 r where nt: "n_tester 2 = Inr (s0, r)" and c: "cnt_inv (length (places s0)) s0"
    using n_tester_2_run_facts by blast
  have reach: "sched_step\<^sup>*\<^sup>* (main r s0) (run_sched n_tester_schedule (main r s0))" by (rule run_sched_reach)
  show ?thesis using nt c reach run_counters_sound [OF reach c] by blast
qed

theorem rr_run_quiescent_witness:
  "\<exists>s0 r. sink_net = Inr (s0, r) \<and> net_inv s0 \<and> wf_net s0 \<and> no_limits s0 \<and> rr_net s0 \<and>
     list_all (actor_ok s0) (get_loops r) \<and>
     (\<exists>z. rr_run (main r s0) = Some z \<and>
        (status z \<noteq> Running \<or>
         (\<forall>j. ATrans j \<in> set (tasks z) \<longrightarrow> \<not> enabled (transitions (sys_net z) ! j) (sys_net z))))"
proof -
  obtain s0 r where nt: "sink_net = Inr (s0, r)" and f: "net_inv s0" "wf_net s0" "no_limits s0" "rr_net s0"
    "list_all (actor_ok s0) (get_loops r)"
    using sink_facts by blast
  show ?thesis using nt f rr_run_quiescent [OF f] by blast
qed

end
