(* ===== verification/Facade.thy ===== *)
theory Facade
  imports Complex_Main
begin

text \<open>
  The facade \<open>SoyutNet\<close> of \<open>src/soyutnet/__init__.py\<close>: its configuration
  flags, the loop delay the actor loops sleep for, which of its printers
  writes and to which stream, and the name of the current task. The text
  a printer writes is modelled in \<open>Printing\<close>; the factory methods (which
  only pass the net to the constructors) are not modelled.
\<close>

record soyutnet =
  loop_delay :: rat
  DEBUG_ENABLED :: bool
  VERBOSE_ENABLED :: bool
  SLOW_MOTION :: bool

definition SoyutNet_init :: soyutnet where
  "SoyutNet_init = \<lparr>loop_delay = 1 / 2, DEBUG_ENABLED = False, VERBOSE_ENABLED = False, SLOW_MOTION = False\<rparr>"

definition LOOP_DELAY :: "soyutnet \<Rightarrow> rat" where
  "LOOP_DELAY net = (if SLOW_MOTION net then loop_delay net else 0)"

datatype printer = P_DEBUG_V | P_ERROR_V | P_DEBUG | P_ERROR

datatype stream = Stdout | Stderr

text \<open>The stream a printer writes to, or \<open>None\<close> when it prints nothing.\<close>

definition prints_to :: "soyutnet \<Rightarrow> printer \<Rightarrow> stream option" where
  "prints_to net p =
     (case p of
        P_DEBUG_V \<Rightarrow> if DEBUG_ENABLED net \<and> VERBOSE_ENABLED net then Some Stdout else None
      | P_ERROR_V \<Rightarrow> if VERBOSE_ENABLED net then Some Stderr else None
      | P_DEBUG \<Rightarrow> if DEBUG_ENABLED net then Some Stdout else None
      | P_ERROR \<Rightarrow> Some Stderr)"

text \<open>
  \<open>get_loop_name\<close>: the name of the current task; \<open>None\<close> stands for no
  current task and for the \<open>RuntimeError\<close> of calling it outside a loop.
\<close>

definition get_loop_name :: "string option \<Rightarrow> string" where
  "get_loop_name current = (case current of Some nm \<Rightarrow> nm | None \<Rightarrow> ''NO-LOOP'')"

lemma LOOP_DELAY_init: "LOOP_DELAY SoyutNet_init = 0"
  by (simp add: LOOP_DELAY_def SoyutNet_init_def)

end
