(* ===== verification/Printing.thy ===== *)
theory Printing
  imports Graph Facade
begin

text \<open>
  The text the program prints. \<open>print(*args)\<close> joins the \<open>str\<close> of its
  arguments with single spaces and ends the line; the printers of
  \<open>SoyutNet\<close> put the task name and a colon first and print only when
  their flags allow (\<open>prints_to\<close> of theory \<open>Facade\<close>); a print is a pair
  of the stream and the text. \<open>Observer._display_records\<close> builds one
  string, a header line and one indented line per record, and hands it to
  \<open>DEBUG\<close>. The \<open>str\<close> of a record (a Python tuple holding a float) is a
  parameter \<open>show\<close> of the model: Python's float formatting is not
  modelled.
\<close>

section \<open>Printing\<close>

text \<open>\<open>sep.join(args)\<close>.\<close>

fun py_join :: "string \<Rightarrow> string list \<Rightarrow> string" where
  "py_join sep [] = []"
| "py_join sep [x] = x"
| "py_join sep (x # y # xs) = x @ sep @ py_join sep (y # xs)"

definition py_print :: "string list \<Rightarrow> string" where
  "py_print args = py_join '' '' args @ eol"

definition emit :: "soyutnet \<Rightarrow> printer \<Rightarrow> string \<Rightarrow> string list \<Rightarrow> (stream \<times> string) list" where
  "emit net p loop_name args =
     (case prints_to net p of
        None \<Rightarrow> []
      | Some st \<Rightarrow> [(st, py_print ((loop_name @ '':'') # args))])"

definition display_records :: "(obs_record \<Rightarrow> string) \<Rightarrow> 'a observer_scheme \<Rightarrow> string" where
  "display_records show ob =
     obs_ident ob @ '' has '' @ int_str (int (length (records ob))) @ '' records'' @ eol @
     concat (map (\<lambda>r. ''  '' @ show r @ eol) (records ob))"

definition Observer__display_records ::
  "soyutnet \<Rightarrow> string \<Rightarrow> (obs_record \<Rightarrow> string) \<Rightarrow> 'a observer_scheme \<Rightarrow> (stream \<times> string) list" where
  "Observer__display_records net loop_name show ob = emit net P_DEBUG loop_name [display_records show ob]"

section \<open>Lemmas\<close>

lemma nl_nat_str: "CHR 0x0A \<notin> set (nat_str n)"
proof (induction n rule: nat_str.induct)
  case (1 n)
  have d: "char_of (48 + k) \<noteq> CHR 0x0A" if "k < 10" for k :: nat
  proof
    assume "char_of (48 + k) = CHR 0x0A"
    then have "of_char (char_of (48 + k) :: char) = (of_char (CHR 0x0A) :: nat)" by simp
    with that show False by simp
  qed
  show ?case
    using 1 d [of n] d [of "n mod 10"] by (subst nat_str.simps) auto
qed

lemma nl_int_str [simp]: "CHR 0x0A \<notin> set (int_str i)"
  by (simp add: int_str_def nl_nat_str)

lemma display_records_lines:
  "display_records show ob =
     concat (map (\<lambda>l. l @ eol)
       ((obs_ident ob @ '' has '' @ int_str (int (length (records ob))) @ '' records'') #
        map (\<lambda>r. ''  '' @ show r) (records ob)))"
  by (simp add: display_records_def comp_def)

section \<open>Properties\<close>

text \<open>C22. What _display_records prints: nothing unless DEBUG_ENABLED; then one
  print on stdout whose lines are the task name, a colon and the header
  \<open><ident> has <n> records\<close> with n the number of records, one line
  \<open>  <record>\<close> per record in history order, and an empty last line (the
  string already ends the line and print ends it again), when neither the
  names nor the records contain a newline.\<close>

theorem display_records_output:
  assumes "CHR 0x0A \<notin> set loop_name" and "CHR 0x0A \<notin> set (obs_ident ob)"
    and "list_all (\<lambda>r. CHR 0x0A \<notin> set (show r)) (records ob)"
  shows "\<exists>txt. Observer__display_records net loop_name show ob =
                (if DEBUG_ENABLED net then [(Stdout, txt)] else []) \<and>
              split_lines txt =
                (loop_name @ '': '' @ obs_ident ob @ '' has '' @ int_str (int (length (records ob))) @ '' records'') #
                map (\<lambda>r. ''  '' @ show r) (records ob) @ [[]]"
proof -
  let ?h = "loop_name @ '': '' @ obs_ident ob @ '' has '' @ int_str (int (length (records ob))) @ '' records''"
  let ?ls = "?h # map (\<lambda>r. ''  '' @ show r) (records ob) @ [[]]"
  have pt: "py_print [loop_name @ '':'', display_records show ob] = concat (map (\<lambda>l. l @ eol) ?ls)"
    by (simp add: py_print_def display_records_lines comp_def)
  have ok: "list_all (\<lambda>l. CHR 0x0A \<notin> set l) ?ls"
    using assms by (simp add: list_all_iff)
  have sl: "split_lines (py_print [loop_name @ '':'', display_records show ob]) = ?ls"
    unfolding pt by (rule split_lines_concat [OF ok])
  have o: "Observer__display_records net loop_name show ob =
           (if DEBUG_ENABLED net then [(Stdout, py_print [loop_name @ '':'', display_records show ob])] else [])"
    by (simp add: Observer__display_records_def emit_def prints_to_def)
  show ?thesis using o sl by blast
qed

theorem display_records_output_witness:
  "CHR 0x0A \<notin> set ''t'' \<and> CHR 0x0A \<notin> set (obs_ident (Observer_init 0 False ''p''\<lparr>records := [(0, [], ''x'')]\<rparr>)) \<and>
   list_all (\<lambda>r. CHR 0x0A \<notin> set ((\<lambda>_. ''r'') r)) (records (Observer_init 0 False ''p''\<lparr>records := [(0, [], ''x'')]\<rparr>)) \<and>
   (\<exists>txt. Observer__display_records (SoyutNet_init\<lparr>DEBUG_ENABLED := True\<rparr>) ''t'' (\<lambda>_. ''r'')
            (Observer_init 0 False ''p''\<lparr>records := [(0, [], ''x'')]\<rparr>) =
          (if DEBUG_ENABLED (SoyutNet_init\<lparr>DEBUG_ENABLED := True\<rparr>) then [(Stdout, txt)] else []) \<and>
          split_lines txt =
            (''t'' @ '': '' @ obs_ident (Observer_init 0 False ''p''\<lparr>records := [(0, [], ''x'')]\<rparr>) @ '' has '' @
             int_str (int (length (records (Observer_init 0 False ''p''\<lparr>records := [(0, [], ''x'')]\<rparr>)))) @ '' records'') #
            map (\<lambda>r. ''  '' @ (\<lambda>_. ''r'') r) (records (Observer_init 0 False ''p''\<lparr>records := [(0, [], ''x'')]\<rparr>)) @ [[]])"
proof -
  have h1: "CHR 0x0A \<notin> set ''t''" by simp
  have h2: "CHR 0x0A \<notin> set (obs_ident (Observer_init 0 False ''p''\<lparr>records := [(0, [], ''x'')]\<rparr>))"
    by (simp add: Observer_init_def)
  have h3: "list_all (\<lambda>r. CHR 0x0A \<notin> set ((\<lambda>_. ''r'') r)) (records (Observer_init 0 False ''p''\<lparr>records := [(0, [], ''x'')]\<rparr>))"
    by simp
  show ?thesis using h1 h2 h3 display_records_output [OF h1 h2 h3] by blast
qed

end
