(* ===== verification/Spec2Isabelle.thy ===== *)
theory Spec2Isabelle
  imports Scenarios Printing
begin

text \<open>
  \<^bold>\<open>A verification library for SoyutNet\<close>, the asyncio engine for
  place/transition nets of the repository (\<open>src/soyutnet\<close>).

  \<^bold>\<open>The program.\<close> A net is a set of actors, places and transitions, each
  run as one asyncio task (\<open>_loop\<close>) by \<open>main\<close> (\<open>src/soyutnet/__init__.py\<close>),
  which takes the tasks from a \<open>PTRegistry\<close>. Tasks interact only through the
  token queues of the places; a transition checks that every input arc's place
  holds at least the arc's weight of tokens of the arc's label, takes them,
  and puts tokens into its output places. Places report count changes to an
  optional \<open>Observer\<close>, which records snapshots when a transition asks
  (\<open>src/soyutnet/observer.py\<close>). Identities come from registries
  (\<open>src/soyutnet/registry.py\<close>): a counter and a directory of entries by
  label. \<open>terminate\<close> cancels every task. Tokens, arcs, places and
  transitions (\<open>token.py\<close>, \<open>pt_common.py\<close>, \<open>place.py\<close>,
  \<open>transition.py\<close>) are not part of the sources at hand; they are modelled
  from the specification and say so where they are defined.

  \<^bold>\<open>Theories\<close>, in import order.
  \<^item> \<open>Prelude\<close>: the types of labels, ids and tokens; Python dictionaries as
    association lists in insertion order (\<open>dict_append\<close>, \<open>dict_add\<close>);
    Python slicing and \<open>int()\<close>; the exceptions as the datatype \<open>error\<close>;
    the outcome of a task's operation, \<open>'a result\<close>: it returns
    (\<open>Done\<close>), raises (\<open>Failed\<close>) or waits forever (\<open>Stuck\<close>).
  \<^item> \<open>Registry\<close> (\<open>registry.py\<close>, \<open>Registry\<close>, \<open>TokenRegistry\<close>): the record
    \<open>registry\<close> with \<open>new_id\<close>, \<open>register\<close>, \<open>get_entry_count\<close>,
    \<open>get_first_entry\<close>, \<open>get_entries\<close>, \<open>entries\<close>, \<open>token_register\<close>,
    \<open>mint\<close>, \<open>mint_n\<close>. Lemmas: the registry invariant (distinct labels,
    distinct ids bounded by the counter) is kept by \<open>register\<close>;
    register/lookup round trip; the label-indexed directory is equivalent to
    a scan of the flat registration log (\<open>register_many\<close>, \<open>reg_log\<close>); the
    anomaly of \<open>get_entry_count\<close>; minted ids are consecutive.
  \<^item> \<open>Observer\<close> (\<open>observer.py\<close>): \<open>Observer\<close> as the record \<open>observer\<close>,
    \<open>ComparativeObserver\<close> as its extension \<open>cmp_observer\<close>; every method,
    the \<open>asyncio.Lock\<close> as the flag \<open>obs_locked\<close>. Acquiring a free
    \<open>asyncio.Lock\<close> never suspends and no code suspends while holding one,
    so a held lock is met only when its holder waits forever: acquiring it is
    \<open>Stuck\<close>. Lemmas: \<open>save\<close> deadlocks when \<open>record_limit > 0\<close>; the
    hysteresis bound; \<open>save\<close> without a limit; counter deltas; the records'
    types (\<open>records_ok\<close>, \<open>col_typed\<close>) are kept by \<open>save\<close> and
    \<open>get_records\<close> returns columns of their type; the comparison loop of
    \<open>ComparativeObserver._save\<close> equals a loop-free reference
    (\<open>compare_ref\<close>), from which the comparison is shown to end one save
    after the last expected value.
  \<^item> \<open>Net\<close> (from the specification: \<open>token.py\<close>, \<open>pt_common.py\<close>,
    \<open>place.py\<close>, \<open>transition.py\<close> are not among the sources): places with
    per-label FIFO queues and an optional observer, arcs, transitions,
    \<open>put\<close>, \<open>try_take\<close>, a place's turn, \<open>enabled\<close>, \<open>save_inputs\<close>, the
    taking with roll-back, \<open>produce\<close> with tokens minted by the token
    registry, \<open>fire\<close>. The outcome of a task's step is \<open>Ret\<close>, \<open>Raise\<close> or
    \<open>Block\<close>, threaded by \<open>obind\<close>. The abstract place/transition net
    (\<open>marking\<close>, \<open>abs_fire\<close>, \<open>abs_step\<close> on multisets) is the specification;
    lemmas: each operation keeps \<open>net_inv\<close> (queues, counts and observer
    counters agree) and its effect on the queues; a firing refines the
    abstract firing rule and conserves labels it balances; per-label FIFO
    order of any script of puts and takes.
  \<^item> \<open>Orchestrator\<close> (\<open>__init__.py\<close> \<open>main\<close>, \<open>terminate\<close>, \<open>_int_handler\<close>,
    \<open>_add_int_handlers\<close>; \<open>registry.py\<close> \<open>PTRegistry\<close>): registration with
    default names, \<open>get_loops\<close>, \<open>get_merged_records\<close>; the state of a run
    \<open>sys\<close> (net, tasks, status); \<open>asyncio.gather\<close> over the tasks as the
    step relation \<open>sched_step\<close> (a turn of any task, a clock tick, a signal,
    cancellation); \<open>run_sched\<close> runs an explicit interleaving. Lemmas by rule
    induction on \<open>sched_step\<close>: every reachable state keeps \<open>sys_inv\<close>
    (among others: no task is blocked when no observer has a record limit)
    and its marking is reachable in the abstract net.
  \<^item> \<open>History\<close>: the observer histories along a run. \<open>keeps\<close> states an
    invariant of a net operation for all its outcomes (returned, raised,
    blocked) and composes through \<open>obind\<close>; every operation, hence every
    \<open>sched_step\<close>, keeps \<open>hist_ok\<close>: each history is ordered by the time
    \<open>save\<close> stamped and no record is later than the clock, on every net,
    with record limits and after a task has blocked.
  \<^item> \<open>Counters\<close>: the token counters along a run, on every net, also
    once \<open>save\<close> has left an observer locked for good: \<open>cnt_inv\<close> (no
    negative counter or snapshot count, a free observer counts its place's
    tokens exactly) and \<open>frame_inv\<close> (places and transitions keep their
    number and shape) are kept by \<open>put\<close>, \<open>try_take\<close> and
    \<open>save_inputs\<close>, hence by every step (\<open>run_keeps\<close> of \<open>History\<close>, which
    lifts an invariant of the elementary operations to every run).
  \<^item> \<open>RoundRobin\<close>: asyncio resumes ready tasks in FIFO order and each
    actor loop yields once per turn, so a run is a sequence of rounds
    (\<open>rr_round\<close>: one turn of each task in task order); \<open>rr_run\<close> repeats
    rounds until the net no longer changes or the loop stops, a
    \<open>partial_function (option)\<close> whose value is \<open>None\<close> when that never
    happens. Termination is proved, not assumed: on nets whose transitions
    take more tokens than they give the number of tokens on input arcs
    (\<open>mass\<close>) decreases with every firing, so \<open>rr_run\<close> returns
    (well-founded induction on \<open>mass\<close>); \<open>rr_run_diverges\<close> shows by fixpoint
    induction that a run cycling through states where the net keeps
    changing is \<open>None\<close>. A round that leaves the net unchanged ran every
    turn without effect (\<open>run_turns_stable\<close>), so the run ends in a dead
    marking: no transition still among main's tasks is enabled.
  \<^item> \<open>Graph\<close> (\<open>registry.py\<close> \<open>_get_graphviz_node_definition\<close>,
    \<open>generate_graph\<close>): the Graphviz text as a string function; the line of
    an arc (\<open>Arc.get_graphviz_definition\<close>) from the specification, and
    \<open>split_lines\<close>, which inverts joining lines with newlines.
  \<^item> \<open>Facade\<close> (\<open>__init__.py\<close> \<open>SoyutNet\<close>): the settings, \<open>LOOP_DELAY\<close>,
    which printer prints on which stream, \<open>get_loop_name\<close>; definitions
    only, used by \<open>Printing\<close>.
  \<^item> \<open>Printing\<close> (\<open>__init__.py\<close> printers, \<open>observer.py\<close>
    \<open>_display_records\<close>): \<open>print\<close> as \<open>py_print\<close>, a printer's output as
    \<open>emit\<close> (stream and text), the history listing as \<open>display_records\<close>
    with the \<open>str\<close> of a record as a parameter. Lemma: the printed listing
    splits into the header with the record count, one line per record and
    the empty line of the doubled newline.
  \<^item> \<open>Scenarios\<close>: the net of \<open>src/tests/n_tester.py\<close> and small nets of
    the specification's scenarios, built with the constructors; two
    properties of such nets (a transition that is never enabled, and the
    parallel-arc net on which the round-robin run never returns), and the
    witnesses of the general properties, which apply them to these nets.

  \<^bold>\<open>Bounds and fuel.\<close> No fuel is used. Interleavings are explicit event
  lists (\<open>run_sched\<close>) or the relation \<open>sched_step\<close>, over which the
  properties quantify; the round-robin run is a partial function whose
  termination is a theorem under its hypotheses and whose divergence is a
  theorem for the parallel-arc net of \<open>dup_livelock\<close>. Ids and counters are
  Python integers (\<open>int\<close>), so no width is involved.

  \<^bold>\<open>Not modelled.\<close> \<open>SoyutNet.sleep\<close> and \<open>time\<close> (the clock is a tick
  count of \<open>sched_step\<close>, and \<open>save\<close> reads it); Python's formatting of a
  record (a tuple holding a float), a parameter of \<open>display_records\<close>; the
  factory methods of \<open>SoyutNet\<close>, which only pass \<open>net=self\<close> to the
  constructors (objects are built directly, \<open>mk_place\<close>, \<open>mk_trans\<close>); the
  example \<open>src/tests/simple_example_two_input_places_but_different_weights.py\<close>,
  which cannot run (wrong keyword argument and imports); the exact format
  of an arc's Graphviz line, which is in \<open>pt_common.py\<close> outside the
  sources.
\<close>

end
